theory Spec2Isabelle
  imports Main "HOL-Library.Monad_Syntax"
begin

section \<open>API types (src/api/types.ts)\<close>

text \<open>
  A message as the Zulip API delivers it. Message identifiers are the positive integers the
  server hands out; they are modelled as natural numbers.
\<close>

record ZulipMessage =
  m_id :: nat
  m_sender_full_name :: string
  m_sender_email :: string
  m_content :: string
  m_timestamp :: nat

text \<open>
  \<open>GetMessagesResponse\<close>: \<open>gm_success\<close> stands for \<open>result === 'success'\<close>.
\<close>

record GetMessagesResponse =
  gm_success :: bool
  gm_msg :: string
  gm_messages :: "ZulipMessage list"
  gm_found_newest :: bool

text \<open>The \<open>anchor\<close> local of \<open>getTopicMessages\<close>: \<open>'oldest' | number\<close>.\<close>

datatype anchor = Oldest | AnchorId nat

section \<open>The HTTP transport and \<open>ZulipClient.request\<close> (src/api/client.ts)\<close>

text \<open>
  The outcome of one call of \<open>fetch\<close>: the promise rejects (network failure), or a response
  with a status code and a parsed body arrives.
\<close>

datatype 'a http_result = FetchFailed | Http nat 'a

datatype error =
    NetworkError
  | ApiError nat
  | GetMessagesFailed string
  | RegisterFailed string
  | SiteNotFound string
  | SqliteConstraint
  | RangeError

text \<open>
  \<open>request\<close>: the transport \<open>net\<close> is what the server answers to this method, endpoint and
  parameters, as a function of the number of HTTP requests issued so far (the clock \<open>n\<close>).
  \<open>request\<close> calls \<open>fetch\<close> once, throws on a rejected promise or when \<open>response.ok\<close> is false
  (status outside 200..299), and returns the parsed body otherwise. The clock advances by
  one for the single call of \<open>fetch\<close>.
\<close>

definition request :: "(nat \<Rightarrow> 'a http_result) \<Rightarrow> nat \<Rightarrow> (error + 'a) \<times> nat" where
  "request net n =
     (case net n of
        FetchFailed \<Rightarrow> (Inl NetworkError, Suc n)
      | Http status body \<Rightarrow>
          if 200 \<le> status \<and> status \<le> 299 then (Inr body, Suc n)
          else (Inl (ApiError status), Suc n))"

section \<open>\<open>ZulipClient.getTopicMessages\<close> (src/api/client.ts)\<close>

definition batchSize :: nat where
  "batchSize = 1000"

text \<open>
  The transport for \<open>GET /messages\<close> with the narrow of one stream and topic fixed:
  anchor, \<open>num_after\<close> and the clock give the outcome (\<open>num_before\<close> is always 0).
\<close>

type_synonym messages_net = "anchor \<Rightarrow> nat \<Rightarrow> nat \<Rightarrow> GetMessagesResponse http_result"

text \<open>
  The \<open>while (true)\<close> loop. It need not terminate for an arbitrary server, so it is a
  partial function: \<open>None\<close> is "never returns". A returned value is the thrown error or the
  accumulated messages, with the clock after the last request.
\<close>

partial_function (option) getTopicMessages_loop ::
  "messages_net \<Rightarrow> anchor \<Rightarrow> ZulipMessage list \<Rightarrow> nat \<Rightarrow> ((error + ZulipMessage list) \<times> nat) option"
where
  "getTopicMessages_loop net anchor allMessages n =
     (case request (net anchor batchSize) n of
        (Inl e, n') \<Rightarrow> Some (Inl e, n')
      | (Inr response, n') \<Rightarrow>
          if \<not> gm_success response then Some (Inl (GetMessagesFailed (gm_msg response)), n')
          else
            let newMessages =
                  (case anchor of
                     Oldest \<Rightarrow> gm_messages response
                   | AnchorId a \<Rightarrow> filter (\<lambda>m. a < m_id m) (gm_messages response))
            in if newMessages = [] then Some (Inr allMessages, n')
               else if gm_found_newest response \<or> length newMessages < batchSize
                 then Some (Inr (allMessages @ newMessages), n')
                 else getTopicMessages_loop net (AnchorId (m_id (last newMessages)))
                        (allMessages @ newMessages) n')"

declare getTopicMessages_loop.simps [code]

text \<open>
  \<open>options.afterMessageId ? options.afterMessageId + 1 : 'oldest'\<close>: an absent identifier and
  the identifier 0 are both falsy.
\<close>

definition initial_anchor :: "nat option \<Rightarrow> anchor" where
  "initial_anchor afterMessageId =
     (case afterMessageId of
        None \<Rightarrow> Oldest
      | Some w \<Rightarrow> if w \<noteq> 0 then AnchorId (w + 1) else Oldest)"

definition getTopicMessages ::
  "messages_net \<Rightarrow> nat option \<Rightarrow> nat \<Rightarrow> ((error + ZulipMessage list) \<times> nat) option"
where
  "getTopicMessages net afterMessageId n =
     getTopicMessages_loop net (initial_anchor afterMessageId) [] n"

section \<open>The remote service\<close>

text \<open>
  The Zulip server is not part of the repository. The client's own comment ("Filter out the
  anchor message if we used a specific ID") and its request parameters fix what it expects of
  \<open>GET /messages\<close> with \<open>num_before = 0\<close>: the messages of the conversation in ascending
  identifier order, the anchor message itself when it is in the conversation, then at most
  \<open>num_after\<close> messages after the anchor; \<open>found_newest\<close> tells that fewer than
  \<open>num_after\<close> messages lie after the anchor. \<open>conv\<close> is the conversation, ascending.
\<close>

definition zulip_get_messages :: "ZulipMessage list \<Rightarrow> anchor \<Rightarrow> nat \<Rightarrow> GetMessagesResponse" where
  "zulip_get_messages conv anchor num_after =
     (case anchor of
        Oldest \<Rightarrow>
          \<lparr> gm_success = True, gm_msg = [], gm_messages = take num_after conv,
            gm_found_newest = (length conv < num_after) \<rparr>
      | AnchorId a \<Rightarrow>
          \<lparr> gm_success = True, gm_msg = [],
            gm_messages = filter (\<lambda>m. m_id m = a) conv
                          @ take num_after (filter (\<lambda>m. a < m_id m) conv),
            gm_found_newest = (length (filter (\<lambda>m. a < m_id m) conv) < num_after) \<rparr>)"

text \<open>A server that always answers, whatever the clock.\<close>

definition zulip_server :: "ZulipMessage list \<Rightarrow> messages_net" where
  "zulip_server conv anchor num_after n = Http 200 (zulip_get_messages conv anchor num_after)"

text \<open>A message with a given identifier and no further content.\<close>

definition mk_msg :: "nat \<Rightarrow> ZulipMessage" where
  "mk_msg i = \<lparr> m_id = i, m_sender_full_name = [], m_sender_email = [], m_content = [],
               m_timestamp = i \<rparr>"

section \<open>The register response (src/api/types.ts)\<close>

record UnreadStreamInfo =
  us_stream_id :: nat
  us_topic :: string
  us_unread_message_ids :: "nat list"

text \<open>
  \<open>UnreadMsgs\<close>: only the \<open>streams\<close> field reaches the store; \<open>pms\<close>, \<open>huddles\<close>,
  \<open>mentions\<close> and \<open>count\<close> are printed at most.
\<close>

record UnreadMsgs =
  um_streams :: "UnreadStreamInfo list"

record StreamInfo =
  si_stream_id :: nat
  si_name :: string
  si_description :: string

text \<open>\<open>RegisterResponse\<close>: the two optional fields are options.\<close>

record RegisterResponse =
  rr_success :: bool
  rr_msg :: string
  rr_unread_msgs :: "UnreadMsgs option"
  rr_subscriptions :: "StreamInfo list option"

section \<open>\<open>ZulipClient.register\<close> (src/api/client.ts)\<close>

definition register ::
  "(nat \<Rightarrow> RegisterResponse http_result) \<Rightarrow> nat \<Rightarrow> (error + UnreadMsgs \<times> StreamInfo list) \<times> nat"
where
  "register net n =
     (case request net n of
        (Inl e, n') \<Rightarrow> (Inl e, n')
      | (Inr response, n') \<Rightarrow>
          if \<not> rr_success response then (Inl (RegisterFailed (rr_msg response)), n')
          else (Inr (case rr_unread_msgs response of
                       None \<Rightarrow> \<lparr> um_streams = [] \<rparr>
                     | Some u \<Rightarrow> u,
                     case rr_subscriptions response of None \<Rightarrow> [] | Some subs \<Rightarrow> subs),
                n'))"

section \<open>Credentials (src/config/credentials.ts)\<close>

record SiteCredentials =
  c_email :: string
  c_api_key :: string
  c_site :: string

text \<open>The parsed credentials file; \<open>cf_sites\<close> lists the keys of \<open>sites\<close> in their order.\<close>

record CredentialsFile =
  cf_default :: string
  cf_sites :: "(string \<times> SiteCredentials) list"

text \<open>\<open>a || b\<close> on strings: the empty string is falsy.\<close>

definition str_or :: "string \<Rightarrow> string \<Rightarrow> string" where
  "str_or a b = (if a = [] then b else a)"

definition getSiteCredentials :: "CredentialsFile \<Rightarrow> string \<Rightarrow> error + SiteCredentials" where
  "getSiteCredentials credentials siteName =
     (let site = str_or siteName (cf_default credentials)
      in case map_of (cf_sites credentials) site of
           None \<Rightarrow> Inl (SiteNotFound site)
         | Some c \<Rightarrow> Inr c)"

definition getDefaultSite :: "CredentialsFile \<Rightarrow> string" where
  "getDefaultSite credentials = cf_default credentials"

definition listSites :: "CredentialsFile \<Rightarrow> string list" where
  "listSites credentials = map fst (cf_sites credentials)"

section \<open>The local store (schema and src/storage/database.ts)\<close>

text \<open>
  One record per table of \<open>SCHEMA\<close>. In a \<open>messages\<close> row the columns \<open>sender_name\<close>,
  \<open>sender_email\<close>, \<open>content\<close>, \<open>content_text\<close>, \<open>timestamp\<close> and \<open>raw_json\<close> are all
  computed from the message, which \<open>message_payload\<close> holds as it is.
\<close>

record site_row =
  site_id :: nat
  site_name :: string
  site_url :: string
  site_last_sync :: "string option"

record stream_row =
  stream_row_id :: nat
  stream_site_id :: nat
  stream_stream_id :: nat
  stream_name :: string

record topic_row =
  topic_row_id :: nat
  topic_stream_id :: nat
  topic_name :: string
  topic_last_message_id :: "nat option"

record message_row =
  message_row_id :: nat
  message_topic_id :: nat
  message_message_id :: nat
  message_payload :: ZulipMessage

record unread_row =
  unread_row_id :: nat
  unread_site_id :: nat
  unread_message_id :: nat
  unread_stream_id :: nat
  unread_stream_name :: string
  unread_topic_name :: string

text \<open>
  The database: the rows of each table in insertion order, and for each table the last
  row identifier that \<open>AUTOINCREMENT\<close> handed out. The driver enforces the foreign keys of
  the schema (\<open>streams.site_id\<close>, \<open>topics.stream_id\<close>, \<open>messages.topic_id\<close>,
  \<open>unread_messages.site_id\<close>): an insert that refers to a missing row throws. The
  operations below do not check them. The commands call each operation with the identifier
  of a row that they have just looked up or created, and the stores of the scenarios hold
  every row that another row refers to.
\<close>

record db =
  sites :: "site_row list"
  streams :: "stream_row list"
  topics :: "topic_row list"
  messages :: "message_row list"
  unread_messages :: "unread_row list"
  seq_sites :: nat
  seq_streams :: nat
  seq_topics :: nat
  seq_messages :: nat
  seq_unread :: nat

definition empty_db :: db where
  "empty_db = \<lparr> sites = [], streams = [], topics = [], messages = [], unread_messages = [],
                seq_sites = 0, seq_streams = 0, seq_topics = 0, seq_messages = 0,
                seq_unread = 0 \<rparr>"

definition getOrCreateSite :: "string \<Rightarrow> string \<Rightarrow> db \<Rightarrow> nat \<times> db" where
  "getOrCreateSite name url d =
     (case find (\<lambda>r. site_name r = name) (sites d) of
        Some existing \<Rightarrow> (site_id existing, d)
      | None \<Rightarrow>
          let i = Suc (seq_sites d)
          in (i, d\<lparr> sites := sites d @ [\<lparr> site_id = i, site_name = name, site_url = url,
                                          site_last_sync = None \<rparr>],
                    seq_sites := i \<rparr>))"

definition updateSiteLastSync :: "nat \<Rightarrow> string \<Rightarrow> db \<Rightarrow> db" where
  "updateSiteLastSync siteId now d =
     d\<lparr> sites := map (\<lambda>r. if site_id r = siteId then r\<lparr> site_last_sync := Some now \<rparr> else r)
                     (sites d) \<rparr>"

definition getOrCreateStream :: "nat \<Rightarrow> nat \<Rightarrow> string \<Rightarrow> db \<Rightarrow> nat \<times> db" where
  "getOrCreateStream siteId streamId name d =
     (case find (\<lambda>r. stream_site_id r = siteId \<and> stream_stream_id r = streamId) (streams d) of
        Some existing \<Rightarrow>
          (stream_row_id existing,
           d\<lparr> streams := map (\<lambda>r. if stream_row_id r = stream_row_id existing
                                   then r\<lparr> stream_name := name \<rparr> else r) (streams d) \<rparr>)
      | None \<Rightarrow>
          let i = Suc (seq_streams d)
          in (i, d\<lparr> streams := streams d @ [\<lparr> stream_row_id = i, stream_site_id = siteId,
                                              stream_stream_id = streamId, stream_name = name \<rparr>],
                    seq_streams := i \<rparr>))"

definition getOrCreateTopic :: "nat \<Rightarrow> string \<Rightarrow> db \<Rightarrow> nat \<times> db" where
  "getOrCreateTopic streamId name d =
     (case find (\<lambda>r. topic_stream_id r = streamId \<and> topic_name r = name) (topics d) of
        Some existing \<Rightarrow> (topic_row_id existing, d)
      | None \<Rightarrow>
          let i = Suc (seq_topics d)
          in (i, d\<lparr> topics := topics d @ [\<lparr> topic_row_id = i, topic_stream_id = streamId,
                                            topic_name = name, topic_last_message_id = None \<rparr>],
                    seq_topics := i \<rparr>))"

definition getTopicLastMessageId :: "nat \<Rightarrow> db \<Rightarrow> nat option" where
  "getTopicLastMessageId topicId d =
     (case find (\<lambda>r. topic_row_id r = topicId) (topics d) of
        None \<Rightarrow> None
      | Some r \<Rightarrow> topic_last_message_id r)"

definition updateTopicLastMessageId :: "nat \<Rightarrow> nat \<Rightarrow> db \<Rightarrow> db" where
  "updateTopicLastMessageId topicId messageId d =
     d\<lparr> topics := map (\<lambda>r. if topic_row_id r = topicId
                             then r\<lparr> topic_last_message_id := Some messageId \<rparr> else r)
                      (topics d) \<rparr>"

text \<open>
  One \<open>INSERT OR IGNORE INTO messages\<close>: the row is skipped when \<open>UNIQUE(topic_id,
  message_id)\<close> would be violated. The first component is \<open>result.changes\<close>. The table is
  \<open>AUTOINCREMENT\<close>: the row identifier is drawn from the sequence before the constraint is
  checked, so a skipped insert uses one up as well.
\<close>

definition insert_message_stmt :: "nat \<Rightarrow> ZulipMessage \<Rightarrow> db \<Rightarrow> nat \<times> db" where
  "insert_message_stmt topicId msg d =
     (if \<exists>r \<in> set (messages d). message_topic_id r = topicId \<and> message_message_id r = m_id msg
      then (0, d\<lparr> seq_messages := Suc (seq_messages d) \<rparr>)
      else (1, d\<lparr> messages := messages d @ [\<lparr> message_row_id = Suc (seq_messages d),
                                                message_topic_id = topicId,
                                                message_message_id = m_id msg,
                                                message_payload = msg \<rparr>],
                  seq_messages := Suc (seq_messages d) \<rparr>))"

text \<open>The body of the \<open>insertMany\<close> transaction, with the counter \<open>inserted\<close>.\<close>

fun insertMany :: "nat \<Rightarrow> ZulipMessage list \<Rightarrow> nat \<Rightarrow> db \<Rightarrow> nat \<times> db" where
  "insertMany topicId [] inserted d = (inserted, d)"
| "insertMany topicId (msg # msgs) inserted d =
     (case insert_message_stmt topicId msg d of
        (changes, d') \<Rightarrow>
          insertMany topicId msgs (if 0 < changes then inserted + 1 else inserted) d')"

text \<open>
  \<open>insertMessages\<close> runs the loop in one transaction. No statement of the loop can violate a
  constraint, so the transaction commits.
\<close>

definition insertMessages :: "nat \<Rightarrow> ZulipMessage list \<Rightarrow> db \<Rightarrow> nat \<times> db" where
  "insertMessages topicId msgs d = insertMany topicId msgs 0 d"

definition clearUnreadMessages :: "nat \<Rightarrow> db \<Rightarrow> db" where
  "clearUnreadMessages siteId d =
     d\<lparr> unread_messages := filter (\<lambda>r. unread_site_id r \<noteq> siteId) (unread_messages d) \<rparr>"

text \<open>\<open>String(n)\<close> for a natural number.\<close>

fun show_nat_fuel :: "nat \<Rightarrow> nat \<Rightarrow> string" where
  "show_nat_fuel 0 n = []"
| "show_nat_fuel (Suc k) n =
     (if n < 10 then [char_of (48 + n)]
      else show_nat_fuel k (n div 10) @ [char_of (48 + n mod 10)])"

definition show_nat :: "nat \<Rightarrow> string" where
  "show_nat n = show_nat_fuel (Suc n) n"

text \<open>The \<open>streamMap\<close> built by \<open>streamMap.set(sub.stream_id, sub.name)\<close> over the subscriptions.\<close>

definition build_streamMap :: "StreamInfo list \<Rightarrow> (nat \<rightharpoonup> string)" where
  "build_streamMap subscriptions =
     fold (\<lambda>sub m. m(si_stream_id sub \<mapsto> si_name sub)) subscriptions Map.empty"

text \<open>\<open>streamMap.get(item.streamId) || `stream_${item.streamId}`\<close>.\<close>

definition stream_name_of :: "(nat \<rightharpoonup> string) \<Rightarrow> nat \<Rightarrow> string" where
  "stream_name_of streamMap streamId =
     (case streamMap streamId of
        None \<Rightarrow> ''stream_'' @ show_nat streamId
      | Some s \<Rightarrow> str_or s (''stream_'' @ show_nat streamId))"

text \<open>
  One plain \<open>INSERT INTO unread_messages\<close>: it throws when \<open>UNIQUE(site_id, message_id)\<close>
  is violated.
\<close>

definition insert_unread_stmt ::
  "nat \<Rightarrow> nat \<Rightarrow> nat \<Rightarrow> string \<Rightarrow> string \<Rightarrow> db \<Rightarrow> error + db"
where
  "insert_unread_stmt siteId msgId streamId streamName topic d =
     (if \<exists>r \<in> set (unread_messages d). unread_site_id r = siteId \<and> unread_message_id r = msgId
      then Inl SqliteConstraint
      else Inr (d\<lparr> unread_messages := unread_messages d @
                      [\<lparr> unread_row_id = Suc (seq_unread d), unread_site_id = siteId,
                         unread_message_id = msgId, unread_stream_id = streamId,
                         unread_stream_name = streamName, unread_topic_name = topic \<rparr>],
                    seq_unread := Suc (seq_unread d) \<rparr>))"

fun insert_unread_ids ::
  "nat \<Rightarrow> nat \<Rightarrow> string \<Rightarrow> string \<Rightarrow> nat list \<Rightarrow> db \<Rightarrow> error + db"
where
  "insert_unread_ids siteId streamId streamName topic [] d = Inr d"
| "insert_unread_ids siteId streamId streamName topic (msgId # msgIds) d =
     (case insert_unread_stmt siteId msgId streamId streamName topic d of
        Inl e \<Rightarrow> Inl e
      | Inr d' \<Rightarrow> insert_unread_ids siteId streamId streamName topic msgIds d')"

fun insert_unread_items ::
  "nat \<Rightarrow> (nat \<rightharpoonup> string) \<Rightarrow> UnreadStreamInfo list \<Rightarrow> db \<Rightarrow> error + db"
where
  "insert_unread_items siteId streamMap [] d = Inr d"
| "insert_unread_items siteId streamMap (item # items) d =
     (case insert_unread_ids siteId (us_stream_id item)
             (stream_name_of streamMap (us_stream_id item)) (us_topic item)
             (us_unread_message_ids item) d of
        Inl e \<Rightarrow> Inl e
      | Inr d' \<Rightarrow> insert_unread_items siteId streamMap items d')"

text \<open>
  \<open>insertUnreadMessages\<close>: the loops run in one transaction. When a statement throws, the
  transaction is rolled back and the error propagates: the result is \<open>Inl\<close> and the caller
  is left with the database as it was before the call.
\<close>

definition insertUnreadMessages ::
  "nat \<Rightarrow> UnreadStreamInfo list \<Rightarrow> (nat \<rightharpoonup> string) \<Rightarrow> db \<Rightarrow> error + db"
where
  "insertUnreadMessages siteId unreads streamMap d = insert_unread_items siteId streamMap unreads d"


record UnreadTopic =
  ut_streamId :: nat
  ut_streamName :: string
  ut_topicName :: string
  ut_messageIds :: "nat list"

text \<open>
  \<open>getUnreadTopics\<close>: the unread rows of the site, grouped by stream identifier, stream name
  and topic name. SQL leaves the order of the groups open. SQLite lists them in ascending
  order of the grouping key; the model lists them by first occurrence. The register
  responses of the scenarios below list their conversations in ascending order of the key,
  so that both orders agree there, and no property below depends on the order.
\<close>

definition unread_key :: "unread_row \<Rightarrow> nat \<times> string \<times> string" where
  "unread_key r = (unread_stream_id r, unread_stream_name r, unread_topic_name r)"

definition getUnreadTopics :: "nat \<Rightarrow> db \<Rightarrow> UnreadTopic list" where
  "getUnreadTopics siteId d =
     (let rows = filter (\<lambda>r. unread_site_id r = siteId) (unread_messages d)
      in map (\<lambda>k. \<lparr> ut_streamId = fst k, ut_streamName = fst (snd k),
                     ut_topicName = snd (snd k),
                     ut_messageIds = map unread_message_id
                                       (filter (\<lambda>r. unread_key r = k) rows) \<rparr>)
             (rev (remdups (rev (map unread_key rows)))))"

section \<open>The sync command (cli/sync.ts)\<close>

text \<open>
  What one site's server answers: to \<open>POST /register\<close>, and to \<open>GET /messages\<close> for the
  narrow of a stream name and a topic name.
\<close>

record remote =
  r_register :: "nat \<Rightarrow> RegisterResponse http_result"
  r_messages :: "string \<Rightarrow> string \<Rightarrow> messages_net"

text \<open>
  The surroundings of a run: the credentials file, the server behind each base URL, and the
  reading of the wall clock (\<open>new Date().toISOString()\<close>) as a function of the request clock.
\<close>

record env =
  e_credentials :: CredentialsFile
  e_world :: "string \<Rightarrow> remote"
  e_now :: "nat \<Rightarrow> string"

text \<open>\<open>lastMessageId || undefined\<close>: \<open>null\<close> and 0 both give \<open>undefined\<close>.\<close>

definition or_undefined :: "nat option \<Rightarrow> nat option" where
  "or_undefined x = (case x of None \<Rightarrow> None | Some w \<Rightarrow> if w = 0 then None else Some w)"

text \<open>
  \<open>Math.max(...messages.map(m => m.id))\<close> passes every identifier as an argument of one
  call, and the engine throws a \<open>RangeError\<close> when a call has more arguments than its stack
  can take. The bound belongs to the engine and its stack size, not to the repository; for
  Node with its default stack it is of the order of 10^5 arguments. \<open>max_arguments\<close> fixes
  it at 125000. The properties below use of it only that the batches of up to 1500
  messages are within the bound and the batch of 130000 messages is not.
\<close>

definition max_arguments :: nat where
  "max_arguments = 125000"

text \<open>
  The body of the loop over the unread topics in \<open>syncSite\<close>. The result is the thrown error
  or the number of inserted messages, with the database and the clock as they are then:
  what the store committed before a throw stays committed. \<open>insertMessages\<close> has committed
  when the maximum identifier is computed, so a \<open>RangeError\<close> there leaves the batch stored
  and the watermark as it was. The export of the topic to a JSON file follows the watermark
  update and writes no table; it is taken to succeed and is left out. Were it to throw,
  the pass would end there, with both commits of the merge done.
\<close>

definition syncTopic ::
  "remote \<Rightarrow> nat \<Rightarrow> UnreadTopic \<Rightarrow> db \<times> nat \<Rightarrow> ((error + nat) \<times> db \<times> nat) option"
where
  "syncTopic rem siteId topic st =
     (case st of (d, n) \<Rightarrow>
      (case getOrCreateStream siteId (ut_streamId topic) (ut_streamName topic) d of
         (streamDbId, d1) \<Rightarrow>
      (case getOrCreateTopic streamDbId (ut_topicName topic) d1 of
         (topicDbId, d2) \<Rightarrow>
      (case getTopicMessages (r_messages rem (ut_streamName topic) (ut_topicName topic))
              (or_undefined (getTopicLastMessageId topicDbId d2)) n of
         None \<Rightarrow> None
       | Some (Inl e, n') \<Rightarrow> Some (Inl e, d2, n')
       | Some (Inr msgs, n') \<Rightarrow>
           if 0 < length msgs then
             (case insertMessages topicDbId msgs d2 of
                (inserted, d3) \<Rightarrow>
                  if max_arguments < length msgs then Some (Inl RangeError, d3, n')
                  else Some (Inr inserted,
                             updateTopicLastMessageId topicDbId (Max (set (map m_id msgs))) d3, n'))
           else Some (Inr 0, d2, n')))))"

text \<open>The \<open>for (const topic of unreadTopics)\<close> loop, with \<open>totalNewMessages\<close>.\<close>

fun syncTopics ::
  "remote \<Rightarrow> nat \<Rightarrow> UnreadTopic list \<Rightarrow> nat \<Rightarrow> db \<times> nat \<Rightarrow> ((error + nat) \<times> db \<times> nat) option"
where
  "syncTopics rem siteId [] totalNew st = Some (Inr totalNew, st)"
| "syncTopics rem siteId (topic # rest) totalNew st =
     (case syncTopic rem siteId topic st of
        None \<Rightarrow> None
      | Some (Inl e, st') \<Rightarrow> Some (Inl e, st')
      | Some (Inr inserted, st') \<Rightarrow> syncTopics rem siteId rest (totalNew + inserted) st')"

text \<open>
  \<open>syncSite\<close>. \<open>new ZulipClient(siteName)\<close> looks the credentials up and throws for an
  unknown site. The result is the thrown error or \<open>totalNewMessages\<close>.
\<close>

definition syncSite ::
  "env \<Rightarrow> string \<Rightarrow> db \<times> nat \<Rightarrow> ((error + nat) \<times> db \<times> nat) option"
where
  "syncSite ev siteName st =
     (case st of (d, n) \<Rightarrow>
      (case getSiteCredentials (e_credentials ev) siteName of
         Inl e \<Rightarrow> Some (Inl e, d, n)
       | Inr cred \<Rightarrow>
      (case register (r_register (e_world ev (c_site cred))) n of
         (Inl e, n1) \<Rightarrow> Some (Inl e, d, n1)
       | (Inr (unreadMsgs, subscriptions), n1) \<Rightarrow>
      (case getOrCreateSite siteName (c_site cred) d of
         (siteId, d1) \<Rightarrow>
      (case insertUnreadMessages siteId (um_streams unreadMsgs)
              (build_streamMap subscriptions) (clearUnreadMessages siteId d1) of
         Inl e \<Rightarrow> Some (Inl e, clearUnreadMessages siteId d1, n1)
       | Inr d3 \<Rightarrow>
           let unreadTopics = getUnreadTopics siteId d3
           in if length unreadTopics = 0
              then Some (Inr 0, updateSiteLastSync siteId (e_now ev n1) d3, n1)
              else
                (case syncTopics (e_world ev (c_site cred)) siteId unreadTopics 0 (d3, n1) of
                   None \<Rightarrow> None
                 | Some (Inl e, d4, n2) \<Rightarrow> Some (Inl e, d4, n2)
                 | Some (Inr totalNew, d4, n2) \<Rightarrow>
                     Some (Inr totalNew, updateSiteLastSync siteId (e_now ev n2) d4, n2)))))))"

record SyncOptions =
  o_site :: "string option"
  o_all :: bool

text \<open>The \<open>for (const siteName of sites)\<close> loop of \<open>syncCommand\<close>.\<close>

fun syncSites :: "env \<Rightarrow> string list \<Rightarrow> db \<times> nat \<Rightarrow> ((error + unit) \<times> db \<times> nat) option" where
  "syncSites ev [] st = Some (Inr (), st)"
| "syncSites ev (siteName # rest) st =
     (case syncSite ev siteName st of
        None \<Rightarrow> None
      | Some (Inl e, st') \<Rightarrow> Some (Inl e, st')
      | Some (Inr totalNew, st') \<Rightarrow> syncSites ev rest st')"

definition syncCommand ::
  "env \<Rightarrow> SyncOptions \<Rightarrow> db \<times> nat \<Rightarrow> ((error + unit) \<times> db \<times> nat) option"
where
  "syncCommand ev options st =
     syncSites ev
       (if o_all options then listSites (e_credentials ev)
        else [str_or (case o_site options of None \<Rightarrow> [] | Some s \<Rightarrow> s)
                     (getDefaultSite (e_credentials ev))])
       st"

text \<open>
  The action of the \<open>sync\<close> command in the entry point: a thrown error is caught, printed,
  and the process exits with status 1. The first component is the exit status.
\<close>

definition sync_action :: "env \<Rightarrow> SyncOptions \<Rightarrow> db \<times> nat \<Rightarrow> (nat \<times> db \<times> nat) option" where
  "sync_action ev options st =
     (case syncCommand ev options st of
        None \<Rightarrow> None
      | Some (Inl e, st') \<Rightarrow> Some (1, st')
      | Some (Inr u, st') \<Rightarrow> Some (0, st'))"

section \<open>The unread command (cli/unread.ts)\<close>


section \<open>Notions used in the properties\<close>

text \<open>An attempt succeeds when a response arrives and its status is in 200..299.\<close>

definition http_ok :: "'a http_result \<Rightarrow> bool" where
  "http_ok r = (case r of FetchFailed \<Rightarrow> False | Http status body \<Rightarrow> 200 \<le> status \<and> status \<le> 299)"

text \<open>
  A server with the one-message conversation that answers the very first request with
  status 503 and every later one normally.
\<close>

definition flaky_server :: messages_net where
  "flaky_server anchor num_after n =
     (if n = 0 then Http 503 (zulip_get_messages [mk_msg 1] anchor num_after)
      else zulip_server [mk_msg 1] anchor num_after n)"

text \<open>The remote message identifiers stored for a topic, in row order.\<close>

definition stored_ids :: "nat \<Rightarrow> db \<Rightarrow> nat list" where
  "stored_ids topicId d =
     map message_message_id (filter (\<lambda>r. message_topic_id r = topicId) (messages d))"

text \<open>
  The store of a pass for the site leanprover when its site row is written and nothing
  else is stored yet.
\<close>

definition site_db :: db where
  "site_db =
     empty_db\<lparr> sites := [\<lparr> site_id = 1, site_name = ''leanprover'', site_url = ''https://a'',
                             site_last_sync = None \<rparr>],
               seq_sites := 1 \<rparr>"

text \<open>
  The scenario of the long conversation: 1500 messages with the identifiers 1 to 1500, on a
  server that serves them for every narrow, and the topic the sync visits.
\<close>

definition long_conversation :: "ZulipMessage list" where
  "long_conversation = map mk_msg [1..<1501]"

definition long_remote :: remote where
  "long_remote = \<lparr> r_register = (\<lambda>n. FetchFailed),
                    r_messages = (\<lambda>streamName topicName. zulip_server long_conversation) \<rparr>"

definition welcome_topic :: UnreadTopic where
  "welcome_topic = \<lparr> ut_streamId = 7, ut_streamName = ''general'', ut_topicName = ''welcome'',
                      ut_messageIds = [] \<rparr>"

text \<open>
  The server of the long conversation with one failure: it answers the request made at
  clock 1, the second request of a fetch started at clock 0, with status 503.
\<close>

definition late_failing_server :: messages_net where
  "late_failing_server anchor num_after n =
     (if n = 1 then Http 503 (zulip_get_messages long_conversation anchor num_after)
      else zulip_server long_conversation anchor num_after n)"

text \<open>The maximum message identifier stored for a topic, if any.\<close>

definition stored_max :: "nat \<Rightarrow> db \<Rightarrow> nat option" where
  "stored_max topicId d =
     (if stored_ids topicId d = [] then None else Some (Max (set (stored_ids topicId d))))"

text \<open>Every topic row's watermark is the maximum stored for it, or none.\<close>

definition watermark_sound :: "db \<Rightarrow> bool" where
  "watermark_sound d =
     (\<forall>r \<in> set (topics d). topic_last_message_id r = stored_max (topic_row_id r) d)"

text \<open>The constraint \<open>UNIQUE(topic_id, message_id)\<close> of the \<open>messages\<close> table.\<close>

definition no_duplicates :: "db \<Rightarrow> bool" where
  "no_duplicates d =
     distinct (map (\<lambda>r. (message_topic_id r, message_message_id r)) (messages d))"

text \<open>The order on watermarks: none is below every identifier.\<close>

definition wm_le :: "nat option \<Rightarrow> nat option \<Rightarrow> bool" where
  "wm_le a b = (case a of None \<Rightarrow> True | Some x \<Rightarrow> (case b of None \<Rightarrow> False | Some y \<Rightarrow> x \<le> y))"

text \<open>No topic row of \<open>d\<close> has a smaller watermark in \<open>d'\<close>.\<close>

definition watermarks_grow :: "db \<Rightarrow> db \<Rightarrow> bool" where
  "watermarks_grow d d' =
     (\<forall>r \<in> set (topics d).
        wm_le (topic_last_message_id r) (getTopicLastMessageId (topic_row_id r) d'))"

text \<open>
  Every watermark is backed by the store: it is none, or the identifier of a message stored
  for its topic.
\<close>

definition watermark_backed :: "db \<Rightarrow> bool" where
  "watermark_backed d =
     (\<forall>r \<in> set (topics d).
        case topic_last_message_id r of
          None \<Rightarrow> True
        | Some w \<Rightarrow> w \<in> set (stored_ids (topic_row_id r) d))"

text \<open>
  The invariant of the store: topic row identifiers are distinct and were handed out by the
  sequence, every message row belongs to a topic identifier that was handed out, the
  watermarks are backed and the uniqueness constraint holds.
\<close>

definition store_inv :: "db \<Rightarrow> bool" where
  "store_inv d =
     ((\<forall>r \<in> set (topics d). topic_row_id r \<le> seq_topics d)
      \<and> distinct (map topic_row_id (topics d))
      \<and> (\<forall>m \<in> set (messages d). message_topic_id m \<le> seq_topics d)
      \<and> watermark_backed d
      \<and> no_duplicates d)"

text \<open>
  A run of sync passes, one invocation of \<open>syncSite\<close> after the other, each with its own
  surroundings and site and whatever its outcome. The outcomes are listed in the order of
  the passes.
\<close>

fun sync_passes ::
  "(env \<times> string) list \<Rightarrow> db \<times> nat \<Rightarrow> ((error + nat) list \<times> db \<times> nat) option"
where
  "sync_passes [] st = Some ([], st)"
| "sync_passes (p # ps) st =
     (case syncSite (fst p) (snd p) st of
        None \<Rightarrow> None
      | Some (out, st') \<Rightarrow>
          (case sync_passes ps st' of
             None \<Rightarrow> None
           | Some (outs, st'') \<Rightarrow> Some (out # outs, st'')))"

text \<open>
  The scenario of the spec: one site whose conversation general/welcome holds the messages
  1 to 5, all unread. \<open>demo_db k\<close> is the store after a pass, \<open>k\<close> being the number of
  unread row identifiers used up before.
\<close>

definition demo_credentials :: CredentialsFile where
  "demo_credentials =
     \<lparr> cf_default = ''leanprover'',
       cf_sites = [(''leanprover'', \<lparr> c_email = ''me@a'', c_api_key = ''k1'', c_site = ''https://a'' \<rparr>),
                   (''lean-fro'', \<lparr> c_email = ''me@b'', c_api_key = ''k2'', c_site = ''https://b'' \<rparr>)] \<rparr>"

definition demo_register :: RegisterResponse where
  "demo_register =
     \<lparr> rr_success = True, rr_msg = [],
       rr_unread_msgs = Some \<lparr> um_streams =
         [\<lparr> us_stream_id = 7, us_topic = ''welcome'', us_unread_message_ids = [1, 2, 3, 4, 5] \<rparr>] \<rparr>,
       rr_subscriptions = Some [\<lparr> si_stream_id = 7, si_name = ''general'', si_description = [] \<rparr>] \<rparr>"

definition demo_conversation :: "ZulipMessage list" where
  "demo_conversation = [mk_msg 1, mk_msg 2, mk_msg 3, mk_msg 4, mk_msg 5]"

definition demo_remote :: remote where
  "demo_remote =
     \<lparr> r_register = (\<lambda>n. Http 200 demo_register),
       r_messages = (\<lambda>streamName topicName. zulip_server demo_conversation) \<rparr>"

definition demo_env :: env where
  "demo_env = \<lparr> e_credentials = demo_credentials, e_world = (\<lambda>url. demo_remote),
                 e_now = (\<lambda>n. ''now'') \<rparr>"

definition demo_unread :: "nat \<Rightarrow> unread_row list" where
  "demo_unread k =
     map (\<lambda>i. \<lparr> unread_row_id = k + i, unread_site_id = 1, unread_message_id = i,
                  unread_stream_id = 7, unread_stream_name = ''general'',
                  unread_topic_name = ''welcome'' \<rparr>) [1, 2, 3, 4, 5]"

definition demo_db :: "nat \<Rightarrow> db" where
  "demo_db k =
     \<lparr> sites = [\<lparr> site_id = 1, site_name = ''leanprover'', site_url = ''https://a'',
                   site_last_sync = Some ''now'' \<rparr>],
       streams = [\<lparr> stream_row_id = 1, stream_site_id = 1, stream_stream_id = 7,
                     stream_name = ''general'' \<rparr>],
       topics = [\<lparr> topic_row_id = 1, topic_stream_id = 1, topic_name = ''welcome'',
                    topic_last_message_id = Some 5 \<rparr>],
       messages = map (\<lambda>i. \<lparr> message_row_id = i, message_topic_id = 1, message_message_id = i,
                                message_payload = mk_msg i \<rparr>) [1, 2, 3, 4, 5],
       unread_messages = demo_unread k,
       seq_sites = 1, seq_streams = 1, seq_topics = 1, seq_messages = 5, seq_unread = k + 5 \<rparr>"





text \<open>
  A site with two unread conversations: the server answers every request for the messages
  of general/stuck with status 500 and serves general/welcome normally.
\<close>

definition stuck_register :: RegisterResponse where
  "stuck_register =
     \<lparr> rr_success = True, rr_msg = [],
       rr_unread_msgs = Some \<lparr> um_streams =
         [\<lparr> us_stream_id = 7, us_topic = ''stuck'', us_unread_message_ids = [9] \<rparr>,
          \<lparr> us_stream_id = 7, us_topic = ''welcome'', us_unread_message_ids = [1, 2] \<rparr>] \<rparr>,
       rr_subscriptions = Some [\<lparr> si_stream_id = 7, si_name = ''general'', si_description = [] \<rparr>] \<rparr>"

definition failing_messages :: messages_net where
  "failing_messages anchor num_after n = Http 500 (zulip_get_messages [] anchor num_after)"

definition stuck_remote :: remote where
  "stuck_remote =
     \<lparr> r_register = (\<lambda>n. Http 200 stuck_register),
       r_messages = (\<lambda>streamName topicName.
          if topicName = ''stuck'' then failing_messages else zulip_server demo_conversation) \<rparr>"

definition stuck_env :: env where
  "stuck_env = \<lparr> e_credentials = demo_credentials, e_world = (\<lambda>url. stuck_remote),
                  e_now = (\<lambda>n. ''now'') \<rparr>"

definition stuck_topic :: UnreadTopic where
  "stuck_topic = \<lparr> ut_streamId = 7, ut_streamName = ''general'', ut_topicName = ''stuck'',
                    ut_messageIds = [9] \<rparr>"

definition stuck_db :: db where
  "stuck_db =
     \<lparr> sites = [\<lparr> site_id = 1, site_name = ''leanprover'', site_url = ''https://a'',
                   site_last_sync = None \<rparr>],
       streams = [\<lparr> stream_row_id = 1, stream_site_id = 1, stream_stream_id = 7,
                     stream_name = ''general'' \<rparr>],
       topics = [\<lparr> topic_row_id = 1, topic_stream_id = 1, topic_name = ''stuck'',
                    topic_last_message_id = None \<rparr>],
       messages = [],
       unread_messages =
         [\<lparr> unread_row_id = 1, unread_site_id = 1, unread_message_id = 9, unread_stream_id = 7,
            unread_stream_name = ''general'', unread_topic_name = ''stuck'' \<rparr>,
          \<lparr> unread_row_id = 2, unread_site_id = 1, unread_message_id = 1, unread_stream_id = 7,
            unread_stream_name = ''general'', unread_topic_name = ''welcome'' \<rparr>,
          \<lparr> unread_row_id = 3, unread_site_id = 1, unread_message_id = 2, unread_stream_id = 7,
            unread_stream_name = ''general'', unread_topic_name = ''welcome'' \<rparr>],
       seq_sites = 1, seq_streams = 1, seq_topics = 1, seq_messages = 0, seq_unread = 3 \<rparr>"

text \<open>The store after the stuck conversation alone was visited from \<open>site_db\<close>.\<close>

definition stuck_topic_db :: db where
  "stuck_topic_db =
     site_db\<lparr> streams := [\<lparr> stream_row_id = 1, stream_site_id = 1, stream_stream_id = 7,
                               stream_name = ''general'' \<rparr>],
               topics := [\<lparr> topic_row_id = 1, topic_stream_id = 1, topic_name = ''stuck'',
                              topic_last_message_id = None \<rparr>],
               seq_streams := 1, seq_topics := 1 \<rparr>"

text \<open>
  Two configured sites, listed as lean-fro then leanprover: the server of lean-fro rejects
  the credentials (status 401), the server of leanprover is the one of the scenario.
\<close>

definition auth_failing_remote :: remote where
  "auth_failing_remote =
     \<lparr> r_register = (\<lambda>n. Http 401 demo_register),
       r_messages = (\<lambda>streamName topicName. failing_messages) \<rparr>"

definition two_site_credentials :: CredentialsFile where
  "two_site_credentials =
     \<lparr> cf_default = ''lean-fro'',
       cf_sites = [(''lean-fro'', \<lparr> c_email = ''me@b'', c_api_key = ''k2'', c_site = ''https://b'' \<rparr>),
                   (''leanprover'', \<lparr> c_email = ''me@a'', c_api_key = ''k1'', c_site = ''https://a'' \<rparr>)] \<rparr>"

definition two_site_env :: env where
  "two_site_env =
     \<lparr> e_credentials = two_site_credentials,
       e_world = (\<lambda>url. if url = ''https://b'' then auth_failing_remote else demo_remote),
       e_now = (\<lambda>n. ''now'') \<rparr>"

definition all_sites :: SyncOptions where
  "all_sites = \<lparr> o_site = None, o_all = True \<rparr>"

text \<open>
  The store calls that \<open>syncSite\<close> makes for a fetched, non-empty batch, in program order:
  \<open>insertMessages\<close> (one transaction) and then \<open>updateTopicLastMessageId\<close> (one statement).
  Each commits on its own.
\<close>

definition merge_steps :: "nat \<Rightarrow> ZulipMessage list \<Rightarrow> (db \<Rightarrow> db) list" where
  "merge_steps topicDbId msgs =
     [\<lambda>d. snd (insertMessages topicDbId msgs d),
      updateTopicLastMessageId topicDbId (Max (set (map m_id msgs)))]"

text \<open>
  The store when the process stops (a crash, a kill, or a throw between the calls) after
  \<open>k\<close> of the commits of \<open>steps\<close>.
\<close>

definition interrupted :: "nat \<Rightarrow> (db \<Rightarrow> db) list \<Rightarrow> db \<Rightarrow> db" where
  "interrupted k steps d = fold (\<lambda>step d'. step d') (take k steps) d"

text \<open>The store \<open>site_db\<close> with the stream general and the topic welcome created.\<close>

definition fresh_topic_db :: db where
  "fresh_topic_db =
     site_db\<lparr> streams := [\<lparr> stream_row_id = 1, stream_site_id = 1, stream_stream_id = 7,
                               stream_name = ''general'' \<rparr>],
               topics := [\<lparr> topic_row_id = 1, topic_stream_id = 1, topic_name = ''welcome'',
                              topic_last_message_id = None \<rparr>],
               seq_streams := 1, seq_topics := 1 \<rparr>"





text \<open>\<open>getSiteId\<close> of database.ts: the identifier of the site row with a given name.\<close>

definition getSiteId :: "string \<Rightarrow> db \<Rightarrow> nat option" where
  "getSiteId siteName d = map_option site_id (find (\<lambda>r. site_name r = siteName) (sites d))"















text \<open>The lookups of \<open>getOrCreateStream\<close> and \<open>getOrCreateTopic\<close>.\<close>

definition stream_lookup :: "nat \<Rightarrow> nat \<Rightarrow> db \<Rightarrow> stream_row option" where
  "stream_lookup siteId streamId d =
     find (\<lambda>r. stream_site_id r = siteId \<and> stream_stream_id r = streamId) (streams d)"

definition topic_lookup :: "nat \<Rightarrow> string \<Rightarrow> db \<Rightarrow> topic_row option" where
  "topic_lookup streamDbId name d =
     find (\<lambda>r. topic_stream_id r = streamDbId \<and> topic_name r = name) (topics d)"




section \<open>The client\<close>

subsection \<open>One request is one attempt\<close>

lemma request_clock: "snd (request net n) = Suc n"
  by (simp add: request_def split: http_result.splits)

lemma request_fails_at_once: "\<not> http_ok (net n) \<Longrightarrow> \<exists>e. request net n = (Inl e, Suc n)"
  by (auto simp: request_def http_ok_def split: http_result.splits)

lemma getTopicMessages_fails_at_once:
  assumes "\<not> http_ok (net (initial_anchor w) batchSize n)"
  shows "\<exists>e. getTopicMessages net w n = Some (Inl e, Suc n)"
proof -
  from request_fails_at_once[of "net (initial_anchor w) batchSize" n] assms
  obtain e where "request (net (initial_anchor w) batchSize) n = (Inl e, Suc n)" by blast
  then have "getTopicMessages net w n = Some (Inl e, Suc n)"
    unfolding getTopicMessages_def by (subst getTopicMessages_loop.simps) simp
  then show ?thesis by blast
qed

lemma loop_fails_at_once:
  assumes "\<not> http_ok (net anchor batchSize n)"
  shows "\<exists>e. getTopicMessages_loop net anchor allMessages n = Some (Inl e, Suc n)"
proof -
  from request_fails_at_once[of "net anchor batchSize" n] assms
  obtain e where "request (net anchor batchSize) n = (Inl e, Suc n)" by blast
  then have "getTopicMessages_loop net anchor allMessages n = Some (Inl e, Suc n)"
    by (subst getTopicMessages_loop.simps) simp
  then show ?thesis by blast
qed

text \<open>
  C4, as the claim states it, fails: the server answers the first request with 503 and
  would answer a second one normally, yet \<open>getTopicMessages\<close> hands the error to its caller
  after that single request. Started one tick later, the same call succeeds.
\<close>

theorem C4_transient_error_surfaces_counterexample:
  "getTopicMessages flaky_server None 0 = Some (Inl (ApiError 503), 1)
   \<and> getTopicMessages flaky_server None 1 = Some (Inr [mk_msg 1], 2)"
proof
  show "getTopicMessages flaky_server None 0 = Some (Inl (ApiError 503), 1)"
    unfolding getTopicMessages_def
    by (subst getTopicMessages_loop.simps)
       (simp add: flaky_server_def request_def initial_anchor_def)
  show "getTopicMessages flaky_server None 1 = Some (Inr [mk_msg 1], 2)"
    unfolding getTopicMessages_def
    by (subst getTopicMessages_loop.simps)
       (simp add: flaky_server_def request_def initial_anchor_def zulip_server_def
          zulip_get_messages_def batchSize_def)
qed

text \<open>
  In the second request of a fetch of the long conversation the server of the one failure
  is asked for the page after the first thousand messages.
\<close>

lemma late_second_page:
  "getTopicMessages late_failing_server None 0
     = getTopicMessages_loop late_failing_server
         (AnchorId (m_id (last (take batchSize long_conversation))))
         (take batchSize long_conversation) (Suc 0)"
proof -
  define pg where "pg = take batchSize long_conversation"
  define resp where "resp = zulip_get_messages long_conversation Oldest batchSize"
  have ne: "pg \<noteq> []"
    by (simp add: pg_def long_conversation_def batchSize_def take_map del: upt_rec_numeral)
  have len: "\<not> length pg < batchSize"
    by (simp add: pg_def long_conversation_def batchSize_def del: upt_rec_numeral)
  have gm: "gm_messages resp = pg" "gm_success resp" "\<not> gm_found_newest resp"
    by (simp_all add: resp_def pg_def zulip_get_messages_def long_conversation_def batchSize_def
        del: upt_rec_numeral)
  have req: "request (late_failing_server Oldest batchSize) 0 = (Inr resp, Suc 0)"
    by (simp add: request_def late_failing_server_def zulip_server_def resp_def)
  have "getTopicMessages late_failing_server None 0
     = getTopicMessages_loop late_failing_server (AnchorId (m_id (last pg))) pg (Suc 0)"
    unfolding getTopicMessages_def
    by (subst getTopicMessages_loop.simps) (simp add: initial_anchor_def req gm ne len)
  then show ?thesis by (simp only: pg_def)
qed

text \<open>
  C4, amended: \<open>request\<close> makes exactly one attempt, and when that attempt is a network
  failure or a response with a status outside 200..299 it throws at once. So does the loop
  of \<open>getTopicMessages\<close> on every page: whatever the anchor and whatever has been fetched
  so far, a failing request ends the fetch with its error after that one attempt, with no
  retry and no backoff; in particular a failure of the first request does.
\<close>

theorem C4_request_single_attempt:
  "snd (request net0 n) = Suc n
   \<and> (\<not> http_ok (net0 n) \<longrightarrow> (\<exists>e. request net0 n = (Inl e, Suc n)))
   \<and> (\<not> http_ok (net anchor batchSize n) \<longrightarrow>
        (\<exists>e. getTopicMessages_loop net anchor allMessages n = Some (Inl e, Suc n)))
   \<and> (\<not> http_ok (net (initial_anchor w) batchSize n) \<longrightarrow>
        (\<exists>e. getTopicMessages net w n = Some (Inl e, Suc n)))"
  using request_clock request_fails_at_once loop_fails_at_once getTopicMessages_fails_at_once
  by blast

theorem C4_request_single_attempt_witness:
  "\<not> http_ok (flaky_server Oldest batchSize 0)
   \<and> (\<exists>e. request (flaky_server Oldest batchSize) 0 = (Inl e, Suc 0))
   \<and> (\<exists>e. getTopicMessages flaky_server None 0 = Some (Inl e, Suc 0))
   \<and> (\<exists>e. getTopicMessages late_failing_server None 0 = Some (Inl e, Suc (Suc 0)))"
proof -
  have a: "\<exists>e. request (flaky_server Oldest batchSize) 0 = (Inl e, Suc 0)"
    and b: "\<exists>e. getTopicMessages flaky_server None 0 = Some (Inl e, Suc 0)"
    and h: "\<not> http_ok (flaky_server Oldest batchSize 0)"
    using C4_request_single_attempt[of "flaky_server Oldest batchSize" 0 flaky_server Oldest "[]" None]
    by (simp_all add: http_ok_def flaky_server_def initial_anchor_def)
  have "\<not> http_ok (late_failing_server
            (AnchorId (m_id (last (take batchSize long_conversation)))) batchSize (Suc 0))"
    by (simp add: http_ok_def late_failing_server_def)
  with C4_request_single_attempt[of "late_failing_server (AnchorId (m_id (last (take batchSize long_conversation)))) batchSize"
            "Suc 0" late_failing_server "AnchorId (m_id (last (take batchSize long_conversation)))"
            "take batchSize long_conversation" None]
  have "\<exists>e. getTopicMessages_loop late_failing_server
         (AnchorId (m_id (last (take batchSize long_conversation))))
         (take batchSize long_conversation) (Suc 0) = Some (Inl e, Suc (Suc 0))" by blast
  then have c: "\<exists>e. getTopicMessages late_failing_server None 0 = Some (Inl e, Suc (Suc 0))"
    using late_second_page by simp
  from a b c h show ?thesis by blast
qed

subsection \<open>The first page of an incremental fetch\<close>

text \<open>
  Whatever the server sends, every message an incremental fetch returns has an identifier
  above \<open>W + 1\<close>: the first anchor is \<open>W + 1\<close>, every later anchor is the identifier of a
  message already returned, and each page keeps only what lies strictly above its anchor.
\<close>

lemma loop_ids_above:
  assumes "getTopicMessages_loop net anchor acc n = Some y"
  shows "\<forall>a ms n'. anchor = AnchorId a \<longrightarrow> b \<le> a \<longrightarrow> (\<forall>m \<in> set acc. b < m_id m) \<longrightarrow>
           y = (Inr ms, n') \<longrightarrow> (\<forall>m \<in> set ms. b < m_id m)"
proof (rule getTopicMessages_loop.raw_induct
    [where P = "\<lambda>net anchor acc n y. \<forall>a ms n'. anchor = AnchorId a \<longrightarrow> b \<le> a \<longrightarrow>
           (\<forall>m \<in> set acc. b < m_id m) \<longrightarrow>
           y = (Inr ms, n') \<longrightarrow> (\<forall>m \<in> set ms. b < m_id m)", OF _ assms], goal_cases)
  case (1 loop net anchor allMessages n y)
  show ?case
  proof (intro allI impI)
    fix a ms n'
    assume an: "anchor = AnchorId a" and ba: "b \<le> a"
      and acc: "\<forall>m \<in> set allMessages. b < m_id m" and y: "y = (Inr ms, n')"
    obtain r k where req: "request (net anchor batchSize) n = (r, k)"
      by (cases "request (net anchor batchSize) n")
    show "\<forall>m \<in> set ms. b < m_id m"
    proof (cases r)
      case (Inl e)
      with 1(2) req y show ?thesis by simp
    next
      case (Inr response)
      define new where "new = filter (\<lambda>m. a < m_id m) (gm_messages response)"
      have newb: "\<forall>m \<in> set new. b < m_id m"
        using ba by (auto simp: new_def)
      show ?thesis
      proof (cases "\<not> gm_success response \<or> new = [] \<or> gm_found_newest response
                     \<or> length new < batchSize")
        case True
        with 1(2) req y Inr an acc newb show ?thesis
          by (auto simp: new_def[symmetric] Let_def split: if_splits)
      next
        case False
        with 1(2) req Inr an
        have again: "loop net (AnchorId (m_id (last new))) (allMessages @ new) k = Some y"
          by (simp add: new_def[symmetric] Let_def)
        from False have "last new \<in> set new" by simp
        with newb have "b \<le> m_id (last new)" by (simp add: less_imp_le)
        with 1(1)[OF again] y acc newb show ?thesis by auto
      qed
    qed
  qed
qed

lemma getTopicMessages_ids_above:
  assumes "getTopicMessages net (Some w) n = Some (Inr ms, n')" and "w \<noteq> 0"
  shows "\<forall>m \<in> set ms. w + 1 < m_id m"
  using loop_ids_above[of net "AnchorId (w + 1)" "[]" n "(Inr ms, n')" "w + 1"] assms
  by (simp add: getTopicMessages_def initial_anchor_def)

text \<open>
  C1 at a failing input: the conversation holds the messages 1, 2 and 3 and the stored
  watermark is 1. The incremental fetch returns message 3 only: message 2, whose identifier
  is above the watermark, is left out.
\<close>

theorem C1_incremental_fetch_drops_successor:
  "getTopicMessages (zulip_server [mk_msg 1, mk_msg 2, mk_msg 3]) (Some 1) 0
     = Some (Inr [mk_msg 3], 1)"
  unfolding getTopicMessages_def
  by (subst getTopicMessages_loop.simps)
     (simp add: request_def initial_anchor_def zulip_server_def zulip_get_messages_def
        batchSize_def mk_msg_def)

subsection \<open>Pagination against the server\<close>

lemma filter_above_last:
  assumes "sorted_wrt (<) (map f (us @ vs))" and "us \<noteq> []"
  shows "filter (\<lambda>m. (f (last us) :: nat) < f m) (us @ vs) = vs"
proof -
  from assms have lu: "last us \<in> set us" by simp
  have s: "sorted_wrt (<) (map f us)" "\<forall>u \<in> set us. \<forall>v \<in> set vs. f u < f v"
    using assms(1) by (auto simp: sorted_wrt_append)
  have "\<forall>u \<in> set us. f u \<le> f (last us)"
  proof
    fix u assume "u \<in> set us"
    from assms(2) have us: "us = butlast us @ [last us]" by simp
    from s(1) have "sorted_wrt (<) (map f (butlast us @ [last us]))" using us by simp
    then have "\<forall>x \<in> set (butlast us). f x < f (last us)"
      by (auto simp: sorted_wrt_append)
    moreover from \<open>u \<in> set us\<close> us have "u \<in> set (butlast us) \<or> u = last us"
      by (metis Un_iff empty_iff insert_iff list.set(1) list.set(2) set_append)
    ultimately show "f u \<le> f (last us)" by auto
  qed
  then have "filter (\<lambda>m. f (last us) < f m) us = []"
    by (auto simp: filter_empty_conv)
  moreover have "filter (\<lambda>m. f (last us) < f m) vs = vs"
    using s(2) lu by (auto simp: filter_id_conv)
  ultimately show ?thesis by simp
qed

lemma server_loop:
  assumes srt: "sorted_wrt (<) (map m_id conv)"
  shows "getTopicMessages_loop (zulip_server conv) (AnchorId a) acc n =
         Some (Inr (acc @ filter (\<lambda>m. a < m_id m) conv),
               n + length (filter (\<lambda>m. a < m_id m) conv) div batchSize + 1)"
proof (induction "length (filter (\<lambda>m. a < m_id m) conv)" arbitrary: a acc n rule: less_induct)
  case less
  define xs where "xs = filter (\<lambda>m. a < m_id m) conv"
  have B: "0 < batchSize" by (simp add: batchSize_def)
  have req: "request (zulip_server conv (AnchorId a) batchSize) n =
     (Inr (zulip_get_messages conv (AnchorId a) batchSize), Suc n)"
    by (simp add: request_def zulip_server_def)
  have new: "filter (\<lambda>m. a < m_id m) (gm_messages (zulip_get_messages conv (AnchorId a) batchSize))
      = take batchSize xs"
  proof -
    have "filter (\<lambda>m. a < m_id m) (filter (\<lambda>m. m_id m = a) conv) = []"
      by (auto simp: filter_empty_conv)
    moreover have "filter (\<lambda>m. a < m_id m) (take batchSize xs) = take batchSize xs"
      by (auto simp: filter_id_conv xs_def dest: in_set_takeD)
    ultimately show ?thesis by (simp add: zulip_get_messages_def xs_def)
  qed
  have fn: "gm_found_newest (zulip_get_messages conv (AnchorId a) batchSize) = (length xs < batchSize)"
    by (simp add: zulip_get_messages_def xs_def)
  have su: "gm_success (zulip_get_messages conv (AnchorId a) batchSize)"
    by (simp add: zulip_get_messages_def)
  show ?case
  proof (cases "length xs < batchSize")
    case True
    then have "take batchSize xs = xs" by simp
    with True req new fn su show ?thesis
      by (subst getTopicMessages_loop.simps) (simp add: xs_def[symmetric] Let_def)
  next
    case False
    define us where "us = take batchSize xs"
    define vs where "vs = drop batchSize xs"
    have xsuv: "xs = us @ vs" by (simp add: us_def vs_def)
    from False B have usne: "us \<noteq> []" by (auto simp: us_def)
    from False have lus: "length us = batchSize" by (simp add: us_def)
    have sx: "sorted_wrt (<) (map m_id xs)"
      unfolding xs_def using srt by (simp add: sorted_wrt_map sorted_wrt_filter)
    have "last us \<in> set xs" using usne xsuv by simp
    then have al: "a < m_id (last us)" by (simp add: xs_def)
    have "filter (\<lambda>m. m_id (last us) < m_id m) conv = filter (\<lambda>m. m_id (last us) < m_id m) xs"
      unfolding xs_def using al by (auto intro!: filter_cong)
    also have "\<dots> = vs"
      using filter_above_last[of m_id us vs] sx usne xsuv by simp
    finally have nxt: "filter (\<lambda>m. m_id (last us) < m_id m) conv = vs" .
    have "length vs < length xs" using lus B xsuv by simp
    then have "length (filter (\<lambda>m. m_id (last us) < m_id m) conv) < length (filter (\<lambda>m. a < m_id m) conv)"
      by (simp add: nxt xs_def)
    from less[OF this, of "acc @ us" "Suc n"]
    have rec: "getTopicMessages_loop (zulip_server conv) (AnchorId (m_id (last us))) (acc @ us) (Suc n)
       = Some (Inr (acc @ xs), Suc n + length vs div batchSize + 1)"
      by (simp add: nxt xsuv)
    have "length xs div batchSize = Suc (length vs div batchSize)"
      using lus B xsuv by (simp add: div_add_self1)
    with False req new fn su usne lus rec show ?thesis
      by (subst getTopicMessages_loop.simps)
         (simp add: xs_def[symmetric] us_def[symmetric] Let_def)
  qed
qed


lemma server_loop_oldest:
  assumes srt: "sorted_wrt (<) (map m_id conv)"
  shows "getTopicMessages_loop (zulip_server conv) Oldest [] n =
         Some (Inr conv, n + length conv div batchSize + 1)"
proof -
  have B: "0 < batchSize" by (simp add: batchSize_def)
  have req: "request (zulip_server conv Oldest batchSize) n =
     (Inr (zulip_get_messages conv Oldest batchSize), Suc n)"
    by (simp add: request_def zulip_server_def)
  show ?thesis
  proof (cases "length conv < batchSize")
    case True
    then have "take batchSize conv = conv" by simp
    with True req show ?thesis
      by (subst getTopicMessages_loop.simps) (simp add: zulip_get_messages_def Let_def)
  next
    case False
    define us where "us = take batchSize conv"
    define vs where "vs = drop batchSize conv"
    have cuv: "conv = us @ vs" by (simp add: us_def vs_def)
    from False B have usne: "us \<noteq> []" by (auto simp: us_def)
    from False have lus: "length us = batchSize" by (simp add: us_def)
    have nxt: "filter (\<lambda>m. m_id (last us) < m_id m) conv = vs"
      using filter_above_last[of m_id us vs] srt usne cuv by simp
    have rec: "getTopicMessages_loop (zulip_server conv) (AnchorId (m_id (last us))) ([] @ us) (Suc n)
       = Some (Inr conv, Suc n + length vs div batchSize + 1)"
      using server_loop[OF srt, of "m_id (last us)" us "Suc n"] cuv[symmetric] by (simp add: nxt)
    have "length conv div batchSize = Suc (length vs div batchSize)"
      using lus B cuv by (simp add: div_add_self1)
    with False req usne lus rec show ?thesis
      by (subst getTopicMessages_loop.simps)
         (simp add: zulip_get_messages_def us_def[symmetric] Let_def)
  qed
qed

section \<open>The store\<close>

subsection \<open>Inserting messages\<close>

lemma in_stored_ids:
  "(\<exists>r \<in> set (messages d). message_topic_id r = t \<and> message_message_id r = i) = (i \<in> set (stored_ids t d))"
  by (force simp: stored_ids_def)

lemma stmt_alt:
  "insert_message_stmt t m d =
     (if m_id m \<in> set (stored_ids t d) then (0, d\<lparr> seq_messages := Suc (seq_messages d) \<rparr>)
      else (1, d\<lparr> messages := messages d @ [\<lparr> message_row_id = Suc (seq_messages d),
                                                message_topic_id = t,
                                                message_message_id = m_id m,
                                                message_payload = m \<rparr>],
                  seq_messages := Suc (seq_messages d) \<rparr>))"
  unfolding insert_message_stmt_def in_stored_ids ..

lemma stmt_other_tables:
  "sites (snd (insert_message_stmt t m d)) = sites d"
  "streams (snd (insert_message_stmt t m d)) = streams d"
  "topics (snd (insert_message_stmt t m d)) = topics d"
  "unread_messages (snd (insert_message_stmt t m d)) = unread_messages d"
  "seq_topics (snd (insert_message_stmt t m d)) = seq_topics d"
  "seq_streams (snd (insert_message_stmt t m d)) = seq_streams d"
  "seq_sites (snd (insert_message_stmt t m d)) = seq_sites d"
  by (simp_all add: insert_message_stmt_def)

lemma stmt_stored_ids:
  "stored_ids t' (snd (insert_message_stmt t m d)) =
     (if t' = t \<and> m_id m \<notin> set (stored_ids t d) then stored_ids t' d @ [m_id m] else stored_ids t' d)"
  by (simp add: stmt_alt) (simp add: stored_ids_def)

lemma stmt_changes:
  "fst (insert_message_stmt t m d) = (if m_id m \<in> set (stored_ids t d) then 0 else 1)"
  by (simp add: stmt_alt)

lemma stmt_present:
  "m_id m \<in> set (stored_ids t d) \<Longrightarrow>
   insert_message_stmt t m d = (0, d\<lparr> seq_messages := Suc (seq_messages d) \<rparr>)"
  by (simp add: stmt_alt)

lemma insertMany_other_tables:
  "sites (snd (insertMany t ms k d)) = sites d \<and>
   streams (snd (insertMany t ms k d)) = streams d \<and>
   topics (snd (insertMany t ms k d)) = topics d \<and>
   unread_messages (snd (insertMany t ms k d)) = unread_messages d \<and>
   seq_topics (snd (insertMany t ms k d)) = seq_topics d \<and>
   seq_streams (snd (insertMany t ms k d)) = seq_streams d \<and>
   seq_sites (snd (insertMany t ms k d)) = seq_sites d"
proof (induction ms arbitrary: k d)
  case Nil
  show ?case by simp
next
  case (Cons m ms)
  obtain c d' where s: "insert_message_stmt t m d = (c, d')" by (cases "insert_message_stmt t m d")
  from stmt_other_tables[of t m d] s Cons[of _ d'] show ?case by simp
qed

lemma insertMany_set_stored:
  "set (stored_ids t' (snd (insertMany t ms k d))) =
     (if t' = t then set (stored_ids t' d) \<union> m_id ` set ms else set (stored_ids t' d))"
proof (induction ms arbitrary: k d)
  case Nil
  show ?case by simp
next
  case (Cons m ms)
  obtain c d' where s: "insert_message_stmt t m d = (c, d')" by (cases "insert_message_stmt t m d")
  from stmt_stored_ids[of t' t m d] s Cons[of _ d'] show ?case by (auto split: if_splits)
qed


lemma insertMany_fresh:
  "distinct (map m_id ms) \<Longrightarrow> \<forall>m \<in> set ms. m_id m \<notin> set (stored_ids t d) \<Longrightarrow>
   fst (insertMany t ms k d) = k + length ms \<and>
   stored_ids t (snd (insertMany t ms k d)) = stored_ids t d @ map m_id ms"
proof (induction ms arbitrary: k d)
  case Nil
  show ?case by simp
next
  case (Cons m ms)
  obtain c d' where s: "insert_message_stmt t m d = (c, d')" by (cases "insert_message_stmt t m d")
  from Cons(3) have c: "c = 1" using stmt_changes[of t m d] s by simp
  from Cons(3) have st: "stored_ids t d' = stored_ids t d @ [m_id m]"
    using stmt_stored_ids[of t t m d] s by simp
  have "\<forall>x \<in> set ms. m_id x \<notin> set (stored_ids t d')"
  proof
    fix x assume x: "x \<in> set ms"
    with Cons(2) have "m_id x \<noteq> m_id m" by (metis distinct.simps(2) image_eqI list.simps(9) set_map)
    with x Cons(3) st show "m_id x \<notin> set (stored_ids t d')" by simp
  qed
  with Cons(1)[of d' "k + 1"] Cons(2) s c st show ?case by simp
qed

lemma insertMany_present:
  "\<forall>m \<in> set ms. m_id m \<in> set (stored_ids t d) \<Longrightarrow>
   insertMany t ms k d = (k, d\<lparr> seq_messages := seq_messages d + length ms \<rparr>)"
proof (induction ms arbitrary: d)
  case Nil
  show ?case by simp
next
  case (Cons m ms)
  have "stored_ids t (d\<lparr> seq_messages := Suc (seq_messages d) \<rparr>) = stored_ids t d"
    by (simp add: stored_ids_def)
  with Cons(2) have "\<forall>x \<in> set ms. m_id x \<in> set (stored_ids t (d\<lparr> seq_messages := Suc (seq_messages d) \<rparr>))"
    by simp
  from Cons(1)[OF this] Cons(2) show ?case by (simp add: stmt_present)
qed

subsection \<open>Streams, topics and watermarks\<close>

lemma find_SomeD: "find P xs = Some x \<Longrightarrow> P x \<and> x \<in> set xs"
  by (induction xs) (auto split: if_splits)


lemma getOrCreateStream_frame:
  "getOrCreateStream sid i nm d = (x, d1) \<Longrightarrow>
   messages d1 = messages d \<and> topics d1 = topics d \<and> sites d1 = sites d \<and>
   unread_messages d1 = unread_messages d \<and> seq_topics d1 = seq_topics d \<and> seq_messages d1 = seq_messages d \<and> seq_sites d1 = seq_sites d"
  by (auto simp: getOrCreateStream_def Let_def split: option.splits)

lemma getOrCreateTopic_frame:
  "getOrCreateTopic s nm d = (x, d2) \<Longrightarrow>
   messages d2 = messages d \<and> streams d2 = streams d \<and> sites d2 = sites d \<and>
   unread_messages d2 = unread_messages d \<and> seq_streams d2 = seq_streams d \<and> seq_messages d2 = seq_messages d \<and> seq_sites d2 = seq_sites d"
  by (auto simp: getOrCreateTopic_def Let_def split: option.splits)

lemma getOrCreateTopic_exists:
  "getOrCreateTopic s nm d = (x, d2) \<Longrightarrow> \<exists>r \<in> set (topics d2). topic_row_id r = x"
  by (auto simp: getOrCreateTopic_def Let_def split: option.splits dest: find_SomeD)

lemma stored_ids_cong: "messages d' = messages d \<Longrightarrow> stored_ids t d' = stored_ids t d"
  by (simp add: stored_ids_def)

lemma find_map_update:
  "find (\<lambda>r. topic_row_id r = t) (map (\<lambda>r. if topic_row_id r = t' then r\<lparr>topic_last_message_id := v\<rparr> else r) rs)
   = map_option (\<lambda>r. if topic_row_id r = t' then r\<lparr>topic_last_message_id := v\<rparr> else r) (find (\<lambda>r. topic_row_id r = t) rs)"
  by (induction rs) auto

lemma getTopicLastMessageId_update:
  "getTopicLastMessageId t (updateTopicLastMessageId t' x d) =
     (if t = t' \<and> (\<exists>r \<in> set (topics d). topic_row_id r = t) then Some x else getTopicLastMessageId t d)"
proof (cases "find (\<lambda>r. topic_row_id r = t) (topics d)")
  case None
  then have "\<not> (\<exists>r \<in> set (topics d). topic_row_id r = t)" by (auto simp: find_None_iff)
  with None show ?thesis
    by (simp add: getTopicLastMessageId_def updateTopicLastMessageId_def find_map_update)
next
  case (Some r)
  from find_SomeD[OF Some] have "topic_row_id r = t" "\<exists>r \<in> set (topics d). topic_row_id r = t" by auto
  with Some show ?thesis
    by (simp add: getTopicLastMessageId_def updateTopicLastMessageId_def find_map_update)
qed

lemma update_frame:
  "messages (updateTopicLastMessageId t x d) = messages d"
  by (simp add: updateTopicLastMessageId_def)

lemma Max_upt: "0 < k \<Longrightarrow> Max (set [1..<Suc k]) = k"
  by (rule Max_eqI) auto

lemma server_fetch_oldest:
  assumes "sorted_wrt (<) (map m_id conv)"
  shows "getTopicMessages (zulip_server conv) None n = Some (Inr conv, n + length conv div batchSize + 1)"
  by (simp add: getTopicMessages_def initial_anchor_def server_loop_oldest[OF assms])

section \<open>One conversation\<close>

text \<open>
  C7: the conversation holds 1500 messages with the identifiers 1 to 1500, the topic has no
  watermark and no stored message. Its sync issues exactly two requests (the clock advances
  by two), inserts 1500 messages, stores exactly the identifiers 1 to 1500 for the topic
  and leaves its watermark at 1500.
\<close>

theorem C7_two_pages_for_1500_messages:
  assumes ids: "map m_id conv = [1..<1501]"
    and srv: "r_messages rem (ut_streamName t) (ut_topicName t) = zulip_server conv"
    and s1: "getOrCreateStream sid (ut_streamId t) (ut_streamName t) d = (streamDbId, d1)"
    and s2: "getOrCreateTopic streamDbId (ut_topicName t) d1 = (tid, d2)"
    and wm: "getTopicLastMessageId tid d2 = None"
    and emp: "stored_ids tid d = []"
  shows "\<exists>d'. syncTopic rem sid t (d, n) = Some (Inr 1500, d', n + 2)
              \<and> stored_ids tid d' = [1..<1501]
              \<and> getTopicLastMessageId tid d' = Some 1500"
proof -
  have len: "length conv = 1500"
  proof -
    have "length (map m_id conv) = length [1..<1501::nat]" by (simp only: ids)
    then show ?thesis by simp
  qed
  have srt: "sorted_wrt (<) (map m_id conv)"
    by (simp only: ids sorted_wrt_upt)
  have dist: "distinct (map m_id conv)"
    by (simp only: ids distinct_upt)
  have fetch: "getTopicMessages (zulip_server conv) None n = Some (Inr conv, n + 2)"
    using server_fetch_oldest[OF srt, of n] len by (simp add: batchSize_def)
  from getOrCreateStream_frame[OF s1] getOrCreateTopic_frame[OF s2]
  have m2: "messages d2 = messages d" by simp
  then have e2: "stored_ids tid d2 = []" using emp by (simp add: stored_ids_def)
  obtain k d3 where ins: "insertMessages tid conv d2 = (k, d3)" by (cases "insertMessages tid conv d2")
  from insertMany_fresh[OF dist, of tid d2 0] e2 ins
  have k: "k = 1500" and st3: "stored_ids tid d3 = [1..<1501]"
    by (simp_all add: insertMessages_def len ids del: upt_rec_numeral)
  from insertMany_other_tables[of tid conv 0 d2] ins
  have t3: "topics d3 = topics d2" by (simp add: insertMessages_def)
  have mx: "Max (set (map m_id conv)) = 1500"
    using Max_upt[of 1500] by (simp only: ids) simp
  define d' where "d' = updateTopicLastMessageId tid 1500 d3"
  have "syncTopic rem sid t (d, n) = Some (Inr 1500, d', n + 2)"
    using s1 s2 wm fetch ins k len mx
    by (simp add: syncTopic_def srv or_undefined_def d'_def max_arguments_def del: upt_rec_numeral)
  moreover have "stored_ids tid d' = [1..<1501]"
    using st3 by (simp add: d'_def stored_ids_def update_frame)
  moreover have "getTopicLastMessageId tid d' = Some 1500"
    using getOrCreateTopic_exists[OF s2] t3
    by (simp add: d'_def getTopicLastMessageId_update)
  ultimately show ?thesis by blast
qed

theorem C7_two_pages_for_1500_messages_witness:
  "map m_id long_conversation = [1..<1501]
   \<and> (\<exists>d'. syncTopic long_remote 1 welcome_topic (site_db, 0) = Some (Inr 1500, d', 2)
             \<and> stored_ids 1 d' = [1..<1501]
             \<and> getTopicLastMessageId 1 d' = Some 1500)"
proof -
  have h1: "map m_id long_conversation = [1..<1501]"
    by (simp add: long_conversation_def mk_msg_def comp_def del: upt_rec_numeral)
  have h2: "r_messages long_remote (ut_streamName welcome_topic) (ut_topicName welcome_topic)
              = zulip_server long_conversation"
    by (simp add: long_remote_def)
  obtain d1 where h3: "getOrCreateStream 1 (ut_streamId welcome_topic) (ut_streamName welcome_topic) site_db = (1, d1)"
      and t1: "topics d1 = []" and s1: "seq_topics d1 = 0"
    by (simp add: getOrCreateStream_def site_db_def empty_db_def Let_def)
  obtain d2 where h4: "getOrCreateTopic 1 (ut_topicName welcome_topic) d1 = (1, d2)"
      and t2: "topics d2 = [\<lparr> topic_row_id = 1, topic_stream_id = 1, topic_name = ''welcome'', topic_last_message_id = None \<rparr>]"
    by (simp add: getOrCreateTopic_def t1 s1 Let_def welcome_topic_def)
  have h5: "getTopicLastMessageId 1 d2 = None"
    by (simp add: getTopicLastMessageId_def t2)
  have h6: "stored_ids 1 site_db = []"
    by (simp add: stored_ids_def site_db_def empty_db_def)
  from C7_two_pages_for_1500_messages[OF h1 h2 h3 h4 h5 h6, of 0] h1 show ?thesis by (simp add: numeral_2_eq_2)
qed

section \<open>Watermarks\<close>

lemma wm_le_refl: "wm_le a a"
  by (simp add: wm_le_def split: option.splits)

lemma wm_le_trans: "wm_le a b \<Longrightarrow> wm_le b c \<Longrightarrow> wm_le a c"
  by (auto simp: wm_le_def split: option.splits)

text \<open>With distinct row identifiers, looking a topic up by its identifier finds its row.\<close>

lemma find_by_id:
  "distinct (map f rs) \<Longrightarrow> r \<in> set rs \<Longrightarrow> find (\<lambda>x. f x = f r) rs = Some r"
  by (induction rs) (auto simp: image_iff)

lemma getTopicLastMessageId_row:
  "distinct (map topic_row_id (topics d)) \<Longrightarrow> r \<in> set (topics d) \<Longrightarrow>
   getTopicLastMessageId (topic_row_id r) d = topic_last_message_id r"
  by (simp add: getTopicLastMessageId_def find_by_id)

lemma getTopicLastMessageId_sound:
  assumes "watermark_sound d"
  shows "getTopicLastMessageId t d = None \<or> getTopicLastMessageId t d = stored_max t d"
proof (cases "find (\<lambda>r. topic_row_id r = t) (topics d)")
  case None
  then show ?thesis by (simp add: getTopicLastMessageId_def)
next
  case (Some r)
  from find_SomeD[OF Some] assms have "topic_last_message_id r = stored_max t d"
    by (auto simp: watermark_sound_def)
  with Some show ?thesis by (simp add: getTopicLastMessageId_def)
qed

lemma store_inv_cong:
  "topics d' = topics d \<Longrightarrow> messages d' = messages d \<Longrightarrow> seq_topics d' = seq_topics d \<Longrightarrow>
   store_inv d' = store_inv d"
  by (simp add: store_inv_def watermark_backed_def no_duplicates_def stored_ids_def
      cong: option.case_cong)


lemma watermarks_grow_cong:
  "topics e' = topics d' \<Longrightarrow> topics e = topics d \<Longrightarrow> watermarks_grow e e' = watermarks_grow d d'"
  by (simp add: watermarks_grow_def getTopicLastMessageId_def)

lemma watermarks_grow_refl: "distinct (map topic_row_id (topics d)) \<Longrightarrow> watermarks_grow d d"
  by (simp add: watermarks_grow_def getTopicLastMessageId_row wm_le_refl)

lemma watermarks_grow_trans:
  assumes "watermarks_grow d d'" "watermarks_grow d' d''" "distinct (map topic_row_id (topics d'))"
  shows "watermarks_grow d d''"
  unfolding watermarks_grow_def
proof
  fix r assume r: "r \<in> set (topics d)"
  with assms(1) have a: "wm_le (topic_last_message_id r) (getTopicLastMessageId (topic_row_id r) d')"
    by (simp add: watermarks_grow_def)
  show "wm_le (topic_last_message_id r) (getTopicLastMessageId (topic_row_id r) d'')"
  proof (cases "find (\<lambda>x. topic_row_id x = topic_row_id r) (topics d')")
    case None
    with a have "topic_last_message_id r = None"
      by (simp add: getTopicLastMessageId_def wm_le_def split: option.splits)
    then show ?thesis by (simp add: wm_le_def)
  next
    case (Some r')
    from find_SomeD[OF Some] have r': "r' \<in> set (topics d')" "topic_row_id r' = topic_row_id r" by auto
    from Some a have "wm_le (topic_last_message_id r) (topic_last_message_id r')"
      by (simp add: getTopicLastMessageId_def)
    moreover from assms(2) r' have "wm_le (topic_last_message_id r') (getTopicLastMessageId (topic_row_id r) d'')"
      by (auto simp: watermarks_grow_def)
    ultimately show ?thesis by (rule wm_le_trans)
  qed
qed

lemma stmt_no_duplicates:
  "no_duplicates d \<Longrightarrow> no_duplicates (snd (insert_message_stmt t m d))"
  by (auto simp: insert_message_stmt_def no_duplicates_def)

lemma stmt_rows:
  "r \<in> set (messages (snd (insert_message_stmt t m d))) \<Longrightarrow>
   r \<in> set (messages d) \<or> message_topic_id r = t"
  by (auto simp: insert_message_stmt_def split: if_splits)

lemma insertMany_no_duplicates:
  "no_duplicates d \<Longrightarrow> no_duplicates (snd (insertMany t ms k d))"
proof (induction ms arbitrary: k d)
  case Nil
  then show ?case by simp
next
  case (Cons m ms)
  obtain c d' where s: "insert_message_stmt t m d = (c, d')" by (cases "insert_message_stmt t m d")
  with stmt_no_duplicates[OF Cons(2), of t m] have "no_duplicates d'" by simp
  from Cons(1)[OF this] s show ?case by simp
qed

lemma insertMany_rows:
  "r \<in> set (messages (snd (insertMany t ms k d))) \<Longrightarrow>
   r \<in> set (messages d) \<or> message_topic_id r = t"
proof (induction ms arbitrary: k d)
  case Nil
  then show ?case by simp
next
  case (Cons m ms)
  obtain c d' where s: "insert_message_stmt t m d = (c, d')" by (cases "insert_message_stmt t m d")
  with Cons(2) have "r \<in> set (messages (snd (insertMany t ms (if 0 < c then k + 1 else k) d')))" by simp
  from Cons(1)[OF this] stmt_rows[of r t m d] s show ?case by auto
qed

lemma find_append_Some: "find P xs = Some x \<Longrightarrow> find P (xs @ ys) = Some x"
  by (induction xs) (auto split: if_splits)


lemma getOrCreateTopic_inv:
  assumes inv: "store_inv d1" and g: "getOrCreateTopic s nm d1 = (tid, d2)"
  shows "store_inv d2 \<and> watermarks_grow d1 d2 \<and> tid \<le> seq_topics d2
         \<and> (\<exists>r \<in> set (topics d2). topic_row_id r = tid)"
proof (cases "find (\<lambda>r. topic_stream_id r = s \<and> topic_name r = nm) (topics d1)")
  case (Some r)
  with g have "d2 = d1" "tid = topic_row_id r" by (simp_all add: getOrCreateTopic_def)
  moreover from find_SomeD[OF Some] have "r \<in> set (topics d1)" by simp
  ultimately show ?thesis using inv
    by (auto simp: store_inv_def watermarks_grow_refl)
next
  case None
  define new where "new = \<lparr> topic_row_id = Suc (seq_topics d1), topic_stream_id = s,
                            topic_name = nm, topic_last_message_id = None \<rparr>"
  from None g have d2: "d2 = d1\<lparr> topics := topics d1 @ [new], seq_topics := Suc (seq_topics d1) \<rparr>"
    and tid: "tid = Suc (seq_topics d1)"
    by (auto simp: getOrCreateTopic_def Let_def new_def)
  have fresh: "stored_ids (Suc (seq_topics d1)) d1 = []"
    using inv by (auto simp: store_inv_def stored_ids_def filter_empty_conv)
  have st: "\<And>t. stored_ids t d2 = stored_ids t d1" by (simp add: d2 stored_ids_def)
  have "watermark_backed d2"
    using inv by (auto simp: store_inv_def watermark_backed_def d2 stored_ids_def new_def
        split: option.splits)
  moreover have "distinct (map topic_row_id (topics d2))"
    using inv by (auto simp: store_inv_def d2 new_def)
  moreover have "no_duplicates d2" using inv by (simp add: store_inv_def no_duplicates_def d2)
  ultimately have "store_inv d2"
    using inv by (auto simp: store_inv_def d2 new_def)
  moreover have "watermarks_grow d1 d2"
    unfolding watermarks_grow_def
  proof
    fix r assume r: "r \<in> set (topics d1)"
    from inv r have "find (\<lambda>x. topic_row_id x = topic_row_id r) (topics d1) = Some r"
      by (simp add: store_inv_def find_by_id)
    then have "getTopicLastMessageId (topic_row_id r) d2 = topic_last_message_id r"
      by (simp add: getTopicLastMessageId_def d2 find_append_Some)
    then show "wm_le (topic_last_message_id r) (getTopicLastMessageId (topic_row_id r) d2)"
      by (simp add: wm_le_refl)
  qed
  moreover have "tid \<le> seq_topics d2" by (simp add: tid d2)
  moreover have "\<exists>r \<in> set (topics d2). topic_row_id r = tid" by (auto simp: tid d2 new_def)
  ultimately show ?thesis by blast
qed


lemma update_topics_ids:
  "map topic_row_id (topics (updateTopicLastMessageId t x d)) = map topic_row_id (topics d)"
  by (simp add: updateTopicLastMessageId_def comp_def if_distrib cong: if_cong)

lemma insert_inv:
  assumes inv: "store_inv d2" and tid: "tid \<le> seq_topics d2"
  shows "store_inv (snd (insertMessages tid ms d2))"
proof -
  define d3 where "d3 = snd (insertMany tid ms 0 d2)"
  have t3: "topics d3 = topics d2" and q3: "seq_topics d3 = seq_topics d2"
    using insertMany_other_tables[of tid ms 0 d2] by (simp_all add: d3_def)
  have i1: "\<forall>r \<in> set (topics d3). topic_row_id r \<le> seq_topics d3"
    using inv by (simp add: store_inv_def t3 q3)
  have i2: "distinct (map topic_row_id (topics d3))"
    using inv by (simp add: store_inv_def t3)
  have i3: "\<forall>m \<in> set (messages d3). message_topic_id m \<le> seq_topics d3"
  proof
    fix m assume "m \<in> set (messages d3)"
    then have "m \<in> set (messages d2) \<or> message_topic_id m = tid"
      using insertMany_rows[of m tid ms 0 d2] by (simp add: d3_def)
    with inv tid show "message_topic_id m \<le> seq_topics d3"
      by (auto simp: store_inv_def q3)
  qed
  have i4: "watermark_backed d3"
    unfolding watermark_backed_def
  proof
    fix r assume r: "r \<in> set (topics d3)"
    have "set (stored_ids (topic_row_id r) d2) \<subseteq> set (stored_ids (topic_row_id r) d3)"
      using insertMany_set_stored[of "topic_row_id r" tid ms 0 d2] by (auto simp: d3_def)
    with inv r show "case topic_last_message_id r of None \<Rightarrow> True
        | Some w \<Rightarrow> w \<in> set (stored_ids (topic_row_id r) d3)"
      by (auto simp: store_inv_def watermark_backed_def t3 split: option.splits)
  qed
  have i5: "no_duplicates d3"
    using insertMany_no_duplicates[of d2 tid ms 0] inv by (simp add: store_inv_def d3_def)
  from i1 i2 i3 i4 i5 show ?thesis by (simp add: store_inv_def d3_def insertMessages_def)
qed

lemma merge_inv:
  assumes inv: "store_inv d2" and tid: "tid \<le> seq_topics d2" and ne: "ms \<noteq> []"
    and le: "wm_le (getTopicLastMessageId tid d2) (Some (Max (set (map m_id ms))))"
    and ins: "insertMessages tid ms d2 = (k, d3)"
  shows "store_inv (updateTopicLastMessageId tid (Max (set (map m_id ms))) d3)
         \<and> watermarks_grow d2 (updateTopicLastMessageId tid (Max (set (map m_id ms))) d3)"
proof -
  define mx where "mx = Max (set (map m_id ms))"
  define d4 where "d4 = updateTopicLastMessageId tid mx d3"
  from ins have d3: "d3 = snd (insertMany tid ms 0 d2)" by (simp add: insertMessages_def)
  from insert_inv[OF inv tid, of ms] ins have inv3: "store_inv d3" by simp
  have t3: "topics d3 = topics d2" and q3: "seq_topics d3 = seq_topics d2"
    using insertMany_other_tables[of tid ms 0 d2] by (simp_all add: d3)
  have m4: "messages d4 = messages d3" and q4: "seq_topics d4 = seq_topics d3"
    by (simp_all add: d4_def updateTopicLastMessageId_def)
  have st4: "\<And>t. stored_ids t d4 = stored_ids t d3" by (simp add: stored_ids_def m4)
  have dist: "distinct (map topic_row_id (topics d2))" using inv by (simp add: store_inv_def)
  have i1: "\<forall>r \<in> set (topics d4). topic_row_id r \<le> seq_topics d4"
    using inv by (auto simp: store_inv_def d4_def updateTopicLastMessageId_def t3 q3)
  have i2: "distinct (map topic_row_id (topics d4))"
    using dist by (simp add: d4_def update_topics_ids t3)
  have i3: "\<forall>m \<in> set (messages d4). message_topic_id m \<le> seq_topics d4"
    using inv3 by (simp add: store_inv_def m4 q4)
  have i5: "no_duplicates d4"
    using inv3 by (simp add: store_inv_def no_duplicates_def m4)
  have mxin: "mx \<in> set (stored_ids tid d3)"
  proof -
    have "Max (m_id ` set ms) \<in> m_id ` set ms" using ne by (intro Max_in) auto
    then show ?thesis
      using insertMany_set_stored[of tid tid ms 0 d2] by (simp add: d3 mx_def)
  qed
  have i4: "watermark_backed d4"
    unfolding watermark_backed_def
  proof
    fix r' assume "r' \<in> set (topics d4)"
    then obtain r where r: "r \<in> set (topics d3)"
      and r': "r' = (if topic_row_id r = tid then r\<lparr> topic_last_message_id := Some mx \<rparr> else r)"
      by (auto simp: d4_def updateTopicLastMessageId_def)
    show "case topic_last_message_id r' of None \<Rightarrow> True
        | Some w \<Rightarrow> w \<in> set (stored_ids (topic_row_id r') d4)"
    proof (cases "topic_row_id r = tid")
      case True
      with r' mxin show ?thesis by (simp add: st4)
    next
      case False
      with inv3 r r' show ?thesis
        by (auto simp: store_inv_def watermark_backed_def st4 split: option.splits)
    qed
  qed
  have grow: "watermarks_grow d2 d4"
    unfolding watermarks_grow_def
  proof
    fix r assume r: "r \<in> set (topics d2)"
    have W: "getTopicLastMessageId (topic_row_id r) d2 = topic_last_message_id r"
      using getTopicLastMessageId_row[OF dist r] .
    have "getTopicLastMessageId (topic_row_id r) d4 =
            (if topic_row_id r = tid then Some mx else getTopicLastMessageId (topic_row_id r) d3)"
      using r by (auto simp: d4_def getTopicLastMessageId_update t3)
    moreover have "getTopicLastMessageId (topic_row_id r) d3 = getTopicLastMessageId (topic_row_id r) d2"
      by (simp add: getTopicLastMessageId_def t3)
    ultimately show "wm_le (topic_last_message_id r) (getTopicLastMessageId (topic_row_id r) d4)"
      using W le by (auto simp: wm_le_refl mx_def)
  qed
  from i1 i2 i3 i4 i5 grow show ?thesis
    by (simp add: store_inv_def d4_def mx_def)
qed


lemma fetch_above_watermark:
  assumes "getTopicMessages net (or_undefined W) n = Some (Inr ms, n')" and "ms \<noteq> []"
  shows "wm_le W (Some (Max (set (map m_id ms))))"
proof (cases "or_undefined W")
  case None
  then have "W = None \<or> W = Some 0" by (auto simp: or_undefined_def split: option.splits if_splits)
  then show ?thesis by (auto simp: wm_le_def)
next
  case (Some w)
  then have W: "W = Some w" "w \<noteq> 0" by (auto simp: or_undefined_def split: option.splits if_splits)
  from assms(1) Some getTopicMessages_ids_above[of net w n ms n'] W
  have "\<forall>m \<in> set ms. w + 1 < m_id m" by simp
  moreover have "Max (set (map m_id ms)) \<in> set (map m_id ms)"
    using assms(2) by (intro Max_in) auto
  ultimately have "w < Max (set (map m_id ms))" by auto
  then show ?thesis by (simp add: W wm_le_def)
qed

text \<open>
  What \<open>syncTopic\<close> does to the store: nothing beyond the creation of the stream and topic
  rows when the fetch fails or returns nothing, the insert alone when the maximum cannot be
  computed, the insert and the watermark update otherwise.
\<close>

lemma syncTopic_steps:
  assumes run: "syncTopic rem sid t (d, n) = Some (out, d', n')"
    and s1: "getOrCreateStream sid (ut_streamId t) (ut_streamName t) d = (sd, d1)"
    and s2: "getOrCreateTopic sd (ut_topicName t) d1 = (tid, d2)"
  shows "d' = d2
       \<or> (\<exists>ms k. getTopicMessages (r_messages rem (ut_streamName t) (ut_topicName t))
                    (or_undefined (getTopicLastMessageId tid d2)) n = Some (Inr ms, k)
                 \<and> ms \<noteq> []
                 \<and> (out = Inl RangeError \<and> d' = snd (insertMessages tid ms d2)
                    \<or> out = Inr (fst (insertMessages tid ms d2))
                      \<and> d' = updateTopicLastMessageId tid (Max (set (map m_id ms)))
                                (snd (insertMessages tid ms d2))))"
proof -
  define W where "W = getTopicLastMessageId tid d2"
  obtain r k where f: "getTopicMessages (r_messages rem (ut_streamName t) (ut_topicName t)) (or_undefined W) n = Some (r, k)"
    using run s1 s2 by (cases "getTopicMessages (r_messages rem (ut_streamName t) (ut_topicName t)) (or_undefined W) n")
      (auto simp: syncTopic_def W_def)
  show ?thesis
  proof (cases r)
    case (Inl e)
    with run s1 s2 f have "d' = d2" by (auto simp: syncTopic_def W_def)
    then show ?thesis by blast
  next
    case (Inr ms)
    show ?thesis
    proof (cases "ms = []")
      case True
      with run s1 s2 f Inr have "d' = d2" by (auto simp: syncTopic_def W_def)
      then show ?thesis by blast
    next
      case False
      with run s1 s2 f Inr
      have "out = Inl RangeError \<and> d' = snd (insertMessages tid ms d2)
            \<or> out = Inr (fst (insertMessages tid ms d2))
              \<and> d' = updateTopicLastMessageId tid (Max (set (map m_id ms)))
                        (snd (insertMessages tid ms d2))"
        by (auto simp: syncTopic_def W_def split: prod.splits if_splits)
      with f Inr False show ?thesis unfolding W_def by blast
    qed
  qed
qed

lemma syncTopic_inv:
  assumes inv: "store_inv d" and run: "syncTopic rem sid t (d, n) = Some (out, d', n')"
  shows "store_inv d' \<and> watermarks_grow d d'"
proof -
  obtain sd d1 where s1: "getOrCreateStream sid (ut_streamId t) (ut_streamName t) d = (sd, d1)"
    by (cases "getOrCreateStream sid (ut_streamId t) (ut_streamName t) d")
  obtain tid d2 where s2: "getOrCreateTopic sd (ut_topicName t) d1 = (tid, d2)"
    by (cases "getOrCreateTopic sd (ut_topicName t) d1")
  from getOrCreateStream_frame[OF s1] have f1: "topics d1 = topics d" "messages d1 = messages d" "seq_topics d1 = seq_topics d"
    by simp_all
  then have inv1: "store_inv d1" using inv store_inv_cong[of d1 d] by simp
  from getOrCreateTopic_inv[OF inv1 s2]
  have inv2: "store_inv d2" and g2: "watermarks_grow d1 d2" and tid: "tid \<le> seq_topics d2" by simp_all
  have g02: "watermarks_grow d d2"
    using g2 watermarks_grow_cong[of d2 d2 d1 d] f1 by simp
  from inv2 have dist2: "distinct (map topic_row_id (topics d2))" by (simp add: store_inv_def)
  from syncTopic_steps[OF run s1 s2] consider "d' = d2"
    | ms k where "getTopicMessages (r_messages rem (ut_streamName t) (ut_topicName t))
                 (or_undefined (getTopicLastMessageId tid d2)) n = Some (Inr ms, k)"
      and "ms \<noteq> []"
      and "out = Inl RangeError \<and> d' = snd (insertMessages tid ms d2)
              \<or> out = Inr (fst (insertMessages tid ms d2))
                \<and> d' = updateTopicLastMessageId tid (Max (set (map m_id ms)))
                          (snd (insertMessages tid ms d2))"
    by blast
  then show ?thesis
  proof cases
    case 1
    with inv2 g02 show ?thesis by simp
  next
    case (2 ms k)
    note f = 2(1) and ne = 2(2) and c = 2(3)
    from c show ?thesis
    proof
      assume "out = Inl RangeError \<and> d' = snd (insertMessages tid ms d2)"
      then have d': "d' = snd (insertMessages tid ms d2)" by simp
      from insert_inv[OF inv2 tid, of ms] have "store_inv d'" by (simp add: d')
      moreover have "topics d' = topics d2"
        using insertMany_other_tables[of tid ms 0 d2] by (simp add: d' insertMessages_def)
      then have "watermarks_grow d2 d'"
        using watermarks_grow_refl[OF dist2] watermarks_grow_cong[of d' d2 d2 d2] by simp
      ultimately show ?thesis using watermarks_grow_trans[OF g02 _ dist2] by blast
    next
      assume "out = Inr (fst (insertMessages tid ms d2))
                \<and> d' = updateTopicLastMessageId tid (Max (set (map m_id ms)))
                          (snd (insertMessages tid ms d2))"
      then have d': "d' = updateTopicLastMessageId tid (Max (set (map m_id ms)))
                          (snd (insertMessages tid ms d2))" by simp
      from fetch_above_watermark[OF f ne]
      have le: "wm_le (getTopicLastMessageId tid d2) (Some (Max (set (map m_id ms))))" .
      have ins: "insertMessages tid ms d2 = (fst (insertMessages tid ms d2), snd (insertMessages tid ms d2))"
        by simp
      from merge_inv[OF inv2 tid ne le ins]
      have "store_inv d'" "watermarks_grow d2 d'" by (simp_all add: d')
      then show ?thesis using watermarks_grow_trans[OF g02 _ dist2] by blast
    qed
  qed
qed


lemma syncTopics_inv:
  "store_inv d \<Longrightarrow> syncTopics rem sid ts k (d, n) = Some (out, d', n') \<Longrightarrow>
   store_inv d' \<and> watermarks_grow d d'"
proof (induction ts arbitrary: k d n)
  case Nil
  then show ?case by (simp add: watermarks_grow_refl store_inv_def)
next
  case (Cons t ts)
  from Cons(3) obtain o1 d1 n1 where s: "syncTopic rem sid t (d, n) = Some (o1, d1, n1)"
    by (cases "syncTopic rem sid t (d, n)") auto
  from syncTopic_inv[OF Cons(2) s] have i1: "store_inv d1" "watermarks_grow d d1" by simp_all
  show ?case
  proof (cases o1)
    case (Inl e)
    with Cons(3) s have "d' = d1" by simp
    with i1 show ?thesis by simp
  next
    case (Inr c)
    with Cons(3) s have "syncTopics rem sid ts (k + c) (d1, n1) = Some (out, d', n')" by simp
    from Cons(1)[OF i1(1) this] have "store_inv d'" "watermarks_grow d1 d'" by simp_all
    moreover from i1(1) have "distinct (map topic_row_id (topics d1))" by (simp add: store_inv_def)
    ultimately show ?thesis using watermarks_grow_trans[OF i1(2)] by blast
  qed
qed


section \<open>A site pass\<close>

lemma getOrCreateSite_frame:
  "getOrCreateSite nm url d = (x, d1) \<Longrightarrow>
   messages d1 = messages d \<and> topics d1 = topics d \<and> streams d1 = streams d \<and>
   unread_messages d1 = unread_messages d \<and> seq_topics d1 = seq_topics d \<and>
   seq_streams d1 = seq_streams d \<and> seq_messages d1 = seq_messages d"
  by (auto simp: getOrCreateSite_def Let_def split: option.splits)

lemma clearUnreadMessages_frame:
  "messages (clearUnreadMessages sid d) = messages d \<and> topics (clearUnreadMessages sid d) = topics d \<and>
   streams (clearUnreadMessages sid d) = streams d \<and> sites (clearUnreadMessages sid d) = sites d \<and>
   seq_topics (clearUnreadMessages sid d) = seq_topics d \<and> seq_streams (clearUnreadMessages sid d) = seq_streams d \<and>
   seq_messages (clearUnreadMessages sid d) = seq_messages d \<and> seq_sites (clearUnreadMessages sid d) = seq_sites d"
  by (simp add: clearUnreadMessages_def)

lemma updateSiteLastSync_frame:
  "messages (updateSiteLastSync sid now d) = messages d \<and> topics (updateSiteLastSync sid now d) = topics d \<and>
   streams (updateSiteLastSync sid now d) = streams d \<and> unread_messages (updateSiteLastSync sid now d) = unread_messages d \<and>
   seq_topics (updateSiteLastSync sid now d) = seq_topics d \<and> seq_streams (updateSiteLastSync sid now d) = seq_streams d \<and>
   seq_messages (updateSiteLastSync sid now d) = seq_messages d \<and> seq_sites (updateSiteLastSync sid now d) = seq_sites d"
  by (simp add: updateSiteLastSync_def)

lemma insert_unread_stmt_frame:
  "insert_unread_stmt sid i s nm tp d = Inr d' \<Longrightarrow>
   messages d' = messages d \<and> topics d' = topics d \<and> streams d' = streams d \<and> sites d' = sites d \<and>
   seq_topics d' = seq_topics d \<and> seq_streams d' = seq_streams d \<and>
   seq_messages d' = seq_messages d \<and> seq_sites d' = seq_sites d"
  by (auto simp: insert_unread_stmt_def split: if_splits)

lemma insert_unread_ids_frame:
  "insert_unread_ids sid s nm tp ids d = Inr d' \<Longrightarrow>
   messages d' = messages d \<and> topics d' = topics d \<and> streams d' = streams d \<and> sites d' = sites d \<and>
   seq_topics d' = seq_topics d \<and> seq_streams d' = seq_streams d \<and>
   seq_messages d' = seq_messages d \<and> seq_sites d' = seq_sites d"
proof (induction ids arbitrary: d)
  case Nil
  then show ?case by simp
next
  case (Cons i ids)
  from Cons(2) obtain d1 where s: "insert_unread_stmt sid i s nm tp d = Inr d1"
    and r: "insert_unread_ids sid s nm tp ids d1 = Inr d'"
    by (auto split: sum.splits)
  from insert_unread_stmt_frame[OF s] Cons(1)[OF r] show ?case by simp
qed

lemma insertUnreadMessages_frame:
  "insertUnreadMessages sid us sm d = Inr d' \<Longrightarrow>
   messages d' = messages d \<and> topics d' = topics d \<and> streams d' = streams d \<and> sites d' = sites d \<and>
   seq_topics d' = seq_topics d \<and> seq_streams d' = seq_streams d \<and>
   seq_messages d' = seq_messages d \<and> seq_sites d' = seq_sites d"
  unfolding insertUnreadMessages_def
proof (induction us arbitrary: d)
  case Nil
  then show ?case by simp
next
  case (Cons u us)
  from Cons(2) obtain d1 where s: "insert_unread_ids sid (us_stream_id u) (stream_name_of sm (us_stream_id u)) (us_topic u) (us_unread_message_ids u) d = Inr d1"
    and r: "insert_unread_items sid sm us d1 = Inr d'"
    by (auto split: sum.splits)
  from insert_unread_ids_frame[OF s] Cons(1)[OF r] show ?case by simp
qed

text \<open>
  A pass, however it ends, leaves the tables \<open>topics\<close> and \<open>messages\<close> either as they were
  or as the loop over the unread topics left them.
\<close>

lemma syncSite_cases:
  assumes "syncSite ev s (d, n) = Some (out, d', n')"
  shows "(topics d' = topics d \<and> messages d' = messages d \<and> seq_topics d' = seq_topics d \<and> streams d' = streams d \<and> seq_streams d' = seq_streams d)
       \<or> (\<exists>rem sid ts d3 n1 d4.
             topics d3 = topics d \<and> messages d3 = messages d \<and> seq_topics d3 = seq_topics d
             \<and> streams d3 = streams d \<and> seq_streams d3 = seq_streams d
             \<and> syncTopics rem sid ts 0 (d3, n1) = Some (out, d4, n')
             \<and> topics d' = topics d4 \<and> messages d' = messages d4 \<and> seq_topics d' = seq_topics d4
             \<and> streams d' = streams d4 \<and> seq_streams d' = seq_streams d4)"
proof (cases "getSiteCredentials (e_credentials ev) s")
  case (Inl e)
  with assms show ?thesis by (simp add: syncSite_def)
next
  case (Inr cred)
  define rem where "rem = e_world ev (c_site cred)"
  obtain r n1 where reg: "register (r_register rem) n = (r, n1)" by (cases "register (r_register rem) n")
  show ?thesis
  proof (cases r)
    case (Inl e)
    with assms Inr reg show ?thesis by (simp add: syncSite_def rem_def)
  next
    case (Inr us)
    obtain um subs where us: "us = (um, subs)" by (cases us)
    obtain sid d1 where g: "getOrCreateSite s (c_site cred) d = (sid, d1)"
      by (cases "getOrCreateSite s (c_site cred) d")
    define d2 where "d2 = clearUnreadMessages sid d1"
    have f2: "topics d2 = topics d \<and> messages d2 = messages d \<and> seq_topics d2 = seq_topics d \<and> streams d2 = streams d \<and> seq_streams d2 = seq_streams d"
      using getOrCreateSite_frame[OF g] clearUnreadMessages_frame[of sid d1] by (simp add: d2_def)
    show ?thesis
    proof (cases "insertUnreadMessages sid (um_streams um) (build_streamMap subs) d2")
      case (Inl e)
      with assms \<open>getSiteCredentials (e_credentials ev) s = Inr cred\<close> reg Inr us g f2
      show ?thesis by (simp add: syncSite_def rem_def d2_def)
    next
      case (Inr d3)
      from insertUnreadMessages_frame[OF Inr] f2
      have f3: "topics d3 = topics d \<and> messages d3 = messages d \<and> seq_topics d3 = seq_topics d \<and> streams d3 = streams d \<and> seq_streams d3 = seq_streams d"
        by simp
      show ?thesis
      proof (cases "length (getUnreadTopics sid d3) = 0")
        case True
        with assms \<open>getSiteCredentials (e_credentials ev) s = Inr cred\<close> reg \<open>r = Inr us\<close> us g Inr
        have "d' = updateSiteLastSync sid (e_now ev n1) d3"
          by (auto simp: syncSite_def rem_def d2_def)
        with f3 updateSiteLastSync_frame[of sid "e_now ev n1" d3] show ?thesis by simp
      next
        case False
        with assms \<open>getSiteCredentials (e_credentials ev) s = Inr cred\<close> reg \<open>r = Inr us\<close> us g Inr
        obtain d4 where run: "syncTopics rem sid (getUnreadTopics sid d3) 0 (d3, n1) = Some (out, d4, n')"
          and d': "d' = d4 \<or> d' = updateSiteLastSync sid (e_now ev n') d4"
          by (auto simp: syncSite_def rem_def d2_def Let_def split: option.splits sum.splits)
        from d' updateSiteLastSync_frame[of sid "e_now ev n'" d4]
        have "topics d' = topics d4 \<and> messages d' = messages d4 \<and> seq_topics d' = seq_topics d4 \<and> streams d' = streams d4 \<and> seq_streams d' = seq_streams d4"
          by auto
        with f3 run show ?thesis by blast
      qed
    qed
  qed
qed

lemma syncSite_inv:
  assumes inv: "store_inv d" and run: "syncSite ev s (d, n) = Some (out, d', n')"
  shows "store_inv d' \<and> watermarks_grow d d'"
  using syncSite_cases[OF run]
proof (elim disjE exE conjE)
  assume a: "topics d' = topics d" "messages d' = messages d" "seq_topics d' = seq_topics d"
  with inv have "store_inv d'" using store_inv_cong[of d' d] by simp
  moreover have "watermarks_grow d d'"
    using watermarks_grow_refl[of d] watermarks_grow_cong[of d' d d d] a inv
    by (simp add: store_inv_def)
  ultimately show ?thesis ..
next
  fix rem sid ts d3 n1 d4
  assume a: "topics d3 = topics d" "messages d3 = messages d" "seq_topics d3 = seq_topics d"
    and run: "syncTopics rem sid ts 0 (d3, n1) = Some (out, d4, n')"
    and b: "topics d' = topics d4" "messages d' = messages d4" "seq_topics d' = seq_topics d4"
  from a inv have "store_inv d3" using store_inv_cong[of d3 d] by simp
  from syncTopics_inv[OF this run] have "store_inv d4" "watermarks_grow d3 d4" by simp_all
  with b a show ?thesis
    using store_inv_cong[of d' d4] watermarks_grow_cong[of d' d4 d d3] by simp
qed


lemma store_inv_empty: "store_inv empty_db"
  by (simp add: store_inv_def empty_db_def watermark_backed_def no_duplicates_def)


lemma sync_passes_inv:
  "store_inv d \<Longrightarrow> sync_passes ps (d, n) = Some (outs, d', n') \<Longrightarrow>
   store_inv d' \<and> watermarks_grow d d'"
proof (induction ps arbitrary: d n outs)
  case Nil
  then show ?case by (simp add: watermarks_grow_refl store_inv_def)
next
  case (Cons p ps)
  from Cons(3) obtain out d1 n1 outs1 where s: "syncSite (fst p) (snd p) (d, n) = Some (out, d1, n1)"
    and r: "sync_passes ps (d1, n1) = Some (outs1, d', n')"
    by (auto split: option.splits)
  from syncSite_inv[OF Cons(2) s] have i1: "store_inv d1" "watermarks_grow d d1" by simp_all
  from Cons(1)[OF i1(1) r] have "store_inv d'" "watermarks_grow d1 d'" by simp_all
  moreover from i1(1) have "distinct (map topic_row_id (topics d1))" by (simp add: store_inv_def)
  ultimately show ?case using watermarks_grow_trans[OF i1(2)] by blast
qed


text \<open>
  A merge that is cut after its first commit leaves a store within the invariant: its
  watermarks are still backed, though the topic's watermark is no longer its maximum.
\<close>

lemma interrupted_store_inv:
  assumes "store_inv d" and "t \<le> seq_topics d"
  shows "store_inv (interrupted 1 (merge_steps t ms) d)"
  using insert_inv[OF assms, of ms] by (simp add: interrupted_def merge_steps_def)

section \<open>The scenario, evaluated\<close>

lemma demo_sorted: "sorted_wrt (<) (map m_id demo_conversation)"
  by (simp add: demo_conversation_def mk_msg_def)

lemma demo_fetch_all:
  "getTopicMessages (zulip_server demo_conversation) None n = Some (Inr demo_conversation, Suc n)"
  using server_fetch_oldest[OF demo_sorted, of n] by (simp add: batchSize_def demo_conversation_def)

lemmas demo_defs =
  syncSite_def demo_env_def demo_credentials_def getSiteCredentials_def str_or_def
  register_def request_def demo_remote_def demo_register_def getOrCreateSite_def
  clearUnreadMessages_def insertUnreadMessages_def build_streamMap_def stream_name_of_def
  insert_unread_stmt_def getUnreadTopics_def unread_key_def Let_def
  syncTopic_def getOrCreateStream_def getOrCreateTopic_def getTopicLastMessageId_def
  or_undefined_def insertMessages_def insert_message_stmt_def max_arguments_def
  updateTopicLastMessageId_def updateSiteLastSync_def

lemma demo_first_pass:
  "syncSite demo_env ''leanprover'' (empty_db, 0) = Some (Inr 5, demo_db 0, 2)"
  apply (simp add: demo_defs empty_db_def demo_fetch_all)
  apply (simp add: demo_defs demo_conversation_def demo_db_def demo_unread_def mk_msg_def)
  done

lemma server_fetch_after:
  assumes "sorted_wrt (<) (map m_id conv)" and "w \<noteq> 0"
  shows "getTopicMessages (zulip_server conv) (Some w) n =
         Some (Inr (filter (\<lambda>m. w + 1 < m_id m) conv),
               n + length (filter (\<lambda>m. w + 1 < m_id m) conv) div batchSize + 1)"
  using server_loop[OF assms(1), of "w + 1" "[]" n] assms(2)
  by (simp add: getTopicMessages_def initial_anchor_def)

lemma demo_fetch_none:
  "getTopicMessages (zulip_server demo_conversation) (Some 5) n = Some (Inr [], Suc n)"
  using server_fetch_after[OF demo_sorted, of 5 n] by (simp add: demo_conversation_def mk_msg_def)

lemma demo_second_pass:
  "syncSite demo_env ''leanprover'' (demo_db 0, 2) = Some (Inr 0, demo_db 5, 4)"
  apply (simp add: demo_defs demo_db_def demo_unread_def demo_fetch_none)
  done

lemma demo_two_passes:
  "sync_passes [(demo_env, ''leanprover''), (demo_env, ''leanprover'')] (empty_db, 0)
     = Some ([Inr 5, Inr 0], demo_db 5, 4)"
  by (simp add: demo_first_pass demo_second_pass)


subsection \<open>A batch beyond the argument bound\<close>











lemma distinct_keys_ids:
  "distinct (map (\<lambda>r. (message_topic_id r, message_message_id r)) rs) \<Longrightarrow>
   distinct (map message_message_id (filter (\<lambda>r. message_topic_id r = t) rs))"
  by (induction rs) (auto simp: image_iff)

lemma no_duplicates_stored: "no_duplicates d \<Longrightarrow> distinct (stored_ids t d)"
  unfolding no_duplicates_def stored_ids_def by (rule distinct_keys_ids)

lemma insertMessages_present:
  "\<forall>m \<in> set ms. m_id m \<in> set (stored_ids t d) \<Longrightarrow>
   insertMessages t ms d = (0, d\<lparr> seq_messages := seq_messages d + length ms \<rparr>)"
  by (simp add: insertMessages_def insertMany_present)

lemma stmt_seq: "seq_messages (snd (insert_message_stmt t m d)) = Suc (seq_messages d)"
  by (simp add: insert_message_stmt_def)

lemma insertMany_seq:
  "seq_messages (snd (insertMany t ms k d)) = seq_messages d + length ms"
proof (induction ms arbitrary: k d)
  case Nil
  show ?case by simp
next
  case (Cons m ms)
  obtain c d' where s: "insert_message_stmt t m d = (c, d')" by (cases "insert_message_stmt t m d")
  from stmt_seq[of t m d] s Cons[of _ d'] show ?case by simp
qed

lemma card_new_ids:
  fixes i :: nat
  assumes "finite M"
  shows "card (insert i M - S) = (if i \<in> S then card (M - S) else Suc (card (M - insert i S)))"
proof (cases "i \<in> S")
  case True
  then have "insert i M - S = M - S" by auto
  with True show ?thesis by simp
next
  case False
  then have "insert i M - S = insert i (M - insert i S)" by auto
  moreover have "i \<notin> M - insert i S" by simp
  moreover from assms have "finite (M - insert i S)" by simp
  ultimately show ?thesis using False by simp
qed

lemma insertMany_count:
  "fst (insertMany t ms k d) = k + card (m_id ` set ms - set (stored_ids t d))"
proof (induction ms arbitrary: k d)
  case Nil
  show ?case by simp
next
  case (Cons m ms)
  obtain c d' where s: "insert_message_stmt t m d = (c, d')" by (cases "insert_message_stmt t m d")
  from stmt_changes[of t m d] s have c: "c = (if m_id m \<in> set (stored_ids t d) then 0 else 1)" by simp
  from stmt_stored_ids[of t t m d] s
  have st: "set (stored_ids t d') =
      (if m_id m \<in> set (stored_ids t d) then set (stored_ids t d) else insert (m_id m) (set (stored_ids t d)))"
    by auto
  have "card (insert (m_id m) (m_id ` set ms) - set (stored_ids t d)) =
      (if m_id m \<in> set (stored_ids t d) then card (m_id ` set ms - set (stored_ids t d))
       else Suc (card (m_id ` set ms - insert (m_id m) (set (stored_ids t d)))))"
    by (rule card_new_ids) simp
  with Cons[of _ d'] s c st show ?case by simp
qed

lemma stmt_appends:
  "\<exists>rows. messages (snd (insert_message_stmt t m d)) = messages d @ rows
          \<and> length rows = fst (insert_message_stmt t m d)"
  by (simp add: insert_message_stmt_def)

lemma insertMany_appends:
  "\<exists>rows. messages (snd (insertMany t ms k d)) = messages d @ rows
          \<and> k + length rows = fst (insertMany t ms k d)"
proof (induction ms arbitrary: k d)
  case Nil
  show ?case by simp
next
  case (Cons m ms)
  obtain c d' where s: "insert_message_stmt t m d = (c, d')" by (cases "insert_message_stmt t m d")
  from stmt_appends[of t m d] s obtain r1 where r1: "messages d' = messages d @ r1" "length r1 = c"
    by auto
  from stmt_changes[of t m d] s have c: "c = 0 \<or> c = 1" by (auto split: if_splits)
  define k' where "k' = (if 0 < c then k + 1 else k)"
  from Cons[of k' d'] obtain r2 where r2: "messages (snd (insertMany t ms k' d')) = messages d' @ r2"
    "k' + length r2 = fst (insertMany t ms k' d')" by blast
  have "messages (snd (insertMany t (m # ms) k d)) = messages d @ (r1 @ r2)"
    using s r1 r2 by (simp add: k'_def)
  moreover have "k + length (r1 @ r2) = fst (insertMany t (m # ms) k d)"
    using s r1 r2 c by (auto simp: k'_def)
  ultimately show ?case by blast
qed

text \<open>
  C9, as the claim states it, fails: the store of the scenario holds the messages 1 to 5 of
  the topic, and the message sequence is at 5. Inserting message 5 again is not counted and
  adds no row, but the store is not as it was: the sequence is at 6.
\<close>

theorem C9_reinsert_uses_row_identifier_counterexample:
  "m_id (mk_msg 5) \<in> set (stored_ids 1 (demo_db 5))
   \<and> fst (insertMessages 1 [mk_msg 5] (demo_db 5)) = 0
   \<and> messages (snd (insertMessages 1 [mk_msg 5] (demo_db 5))) = messages (demo_db 5)
   \<and> snd (insertMessages 1 [mk_msg 5] (demo_db 5)) \<noteq> demo_db 5
   \<and> seq_messages (demo_db 5) = 5
   \<and> seq_messages (snd (insertMessages 1 [mk_msg 5] (demo_db 5))) = 6"
  by (simp add: insertMessages_def insert_message_stmt_def demo_db_def mk_msg_def stored_ids_def)

text \<open>
  C9, amended: after any number of sync passes from the empty store, no two rows of the
  \<open>messages\<close> table share topic and message identifier, so the identifiers stored for any
  one topic are distinct. For a topic that has its row, \<open>insertMessages\<close> keeps the
  uniqueness, returns for every batch, whatever part of it is stored already, the number
  of distinct identifiers of the batch that the topic did not hold, and appends exactly
  that many rows to the \<open>messages\<close> table without changing a row of any table.
  Re-inserting messages that are all present is counted 0 and changes no row; it is not
  without effect on the store, since every statement, ignored or not, takes one row
  identifier from the sequence of the table.
\<close>

theorem C9_no_duplicate_rows:
  "(sync_passes ps (empty_db, n0) = Some (outs, d, n) \<longrightarrow>
      no_duplicates d \<and> (\<forall>t. distinct (stored_ids t d)))
   \<and> (t0 \<in> topic_row_id ` set (topics d0) \<longrightarrow>
        (no_duplicates d0 \<longrightarrow> no_duplicates (snd (insertMessages t0 ms d0)))
        \<and> fst (insertMessages t0 ms d0) = card (m_id ` set ms - set (stored_ids t0 d0))
        \<and> (\<exists>rows. messages (snd (insertMessages t0 ms d0)) = messages d0 @ rows
                   \<and> length rows = fst (insertMessages t0 ms d0))
        \<and> sites (snd (insertMessages t0 ms d0)) = sites d0
        \<and> streams (snd (insertMessages t0 ms d0)) = streams d0
        \<and> topics (snd (insertMessages t0 ms d0)) = topics d0
        \<and> unread_messages (snd (insertMessages t0 ms d0)) = unread_messages d0
        \<and> seq_messages (snd (insertMessages t0 ms d0)) = seq_messages d0 + length ms
        \<and> ((\<forall>m \<in> set ms. m_id m \<in> set (stored_ids t0 d0)) \<longrightarrow>
             insertMessages t0 ms d0 = (0, d0\<lparr> seq_messages := seq_messages d0 + length ms \<rparr>)))"
proof -
  have inv: "no_duplicates d \<and> (\<forall>t. distinct (stored_ids t d))"
    if "sync_passes ps (empty_db, n0) = Some (outs, d, n)"
  proof -
    from sync_passes_inv[OF store_inv_empty that] have "no_duplicates d"
      by (simp add: store_inv_def)
    then show ?thesis by (simp add: no_duplicates_stored)
  qed
  have keep: "no_duplicates (snd (insertMessages t0 ms d0))" if "no_duplicates d0"
    using insertMany_no_duplicates[OF that, of t0 ms 0] by (simp add: insertMessages_def)
  have cnt: "fst (insertMessages t0 ms d0) = card (m_id ` set ms - set (stored_ids t0 d0))"
    using insertMany_count[of t0 ms 0 d0] by (simp add: insertMessages_def)
  have app: "\<exists>rows. messages (snd (insertMessages t0 ms d0)) = messages d0 @ rows
              \<and> length rows = fst (insertMessages t0 ms d0)"
    using insertMany_appends[of t0 ms 0 d0] by (simp add: insertMessages_def)
  have oth: "sites (snd (insertMessages t0 ms d0)) = sites d0"
    "streams (snd (insertMessages t0 ms d0)) = streams d0"
    "topics (snd (insertMessages t0 ms d0)) = topics d0"
    "unread_messages (snd (insertMessages t0 ms d0)) = unread_messages d0"
    using insertMany_other_tables[of t0 ms 0 d0] by (simp_all add: insertMessages_def)
  have sq: "seq_messages (snd (insertMessages t0 ms d0)) = seq_messages d0 + length ms"
    by (simp add: insertMessages_def insertMany_seq)
  have pres: "insertMessages t0 ms d0 = (0, d0\<lparr> seq_messages := seq_messages d0 + length ms \<rparr>)"
    if "\<forall>m \<in> set ms. m_id m \<in> set (stored_ids t0 d0)"
    using that by (rule insertMessages_present)
  from inv keep cnt app oth sq pres show ?thesis by blast
qed

lemma demo_stored: "stored_ids (Suc 0) (demo_db k) = [1, 2, 3, 4, 5]"
  by (simp add: stored_ids_def demo_db_def)

text \<open>
  The theorem on the scenario after two passes, with the overlapping batch of the messages
  4 to 7: the messages 6 and 7 are counted and stored, 4 and 5 are not.
\<close>

theorem C9_no_duplicate_rows_witness:
  "sync_passes [(demo_env, ''leanprover''), (demo_env, ''leanprover'')] (empty_db, 0)
     = Some ([Inr 5, Inr 0], demo_db 5, 4)
   \<and> no_duplicates (demo_db 5) \<and> distinct (stored_ids 1 (demo_db 5))
   \<and> 1 \<in> topic_row_id ` set (topics (demo_db 5))
   \<and> no_duplicates (snd (insertMessages 1 (map mk_msg [4, 5, 6, 7]) (demo_db 5)))
   \<and> fst (insertMessages 1 (map mk_msg [4, 5, 6, 7]) (demo_db 5)) = 2
   \<and> stored_ids 1 (snd (insertMessages 1 (map mk_msg [4, 5, 6, 7]) (demo_db 5))) = [1, 2, 3, 4, 5, 6, 7]
   \<and> set (map m_id (map mk_msg [4, 5])) \<subseteq> set (stored_ids 1 (demo_db 5))
   \<and> insertMessages 1 (map mk_msg [4, 5]) (demo_db 5) = (0, (demo_db 5)\<lparr> seq_messages := 7 \<rparr>)"
proof -
  note T = C9_no_duplicate_rows[of "[(demo_env, ''leanprover''), (demo_env, ''leanprover'')]" 0
      "[Inr 5, Inr 0]" "demo_db 5" 4 1 "demo_db 5" "map mk_msg [4, 5, 6, 7]"]
  note U = C9_no_duplicate_rows[of "[]" 0 "[]" empty_db 0 1 "demo_db 5" "map mk_msg [4, 5]"]
  have nd: "no_duplicates (demo_db 5)" using T demo_two_passes by blast
  have ev: "stored_ids 1 (snd (insertMessages 1 (map mk_msg [4, 5, 6, 7]) (demo_db 5))) = [1, 2, 3, 4, 5, 6, 7]"
    by (simp add: insertMessages_def insert_message_stmt_def demo_db_def mk_msg_def stored_ids_def)
  have c: "card (m_id ` set (map mk_msg [4, 5, 6, 7]) - set (stored_ids 1 (demo_db 5))) = 2"
  proof -
    have "m_id ` set (map mk_msg [4, 5, 6, 7]) - set (stored_ids 1 (demo_db 5)) = {6, 7}"
      by (auto simp: demo_stored mk_msg_def)
    then show ?thesis by simp
  qed
  have present: "\<forall>m \<in> set (map mk_msg [4, 5]). m_id m \<in> set (stored_ids 1 (demo_db 5))"
    by (simp add: demo_stored mk_msg_def)
  have row: "1 \<in> topic_row_id ` set (topics (demo_db 5))" by (simp add: demo_db_def)
  have sq: "seq_messages (demo_db 5) + length (map mk_msg [4, 5::nat]) = 7"
    by (simp add: demo_db_def)
  from T demo_two_passes have a: "no_duplicates (demo_db 5) \<and> distinct (stored_ids 1 (demo_db 5))" by blast
  from T nd row have b: "no_duplicates (snd (insertMessages 1 (map mk_msg [4, 5, 6, 7]) (demo_db 5)))" by blast
  from T c row have k: "fst (insertMessages 1 (map mk_msg [4, 5, 6, 7]) (demo_db 5)) = 2" by simp
  from U present row have "insertMessages 1 (map mk_msg [4, 5]) (demo_db 5)
      = (0, (demo_db 5)\<lparr> seq_messages := seq_messages (demo_db 5) + length (map mk_msg [4, 5::nat]) \<rparr>)"
    by blast
  then have p: "insertMessages 1 (map mk_msg [4, 5]) (demo_db 5) = (0, (demo_db 5)\<lparr> seq_messages := 7 \<rparr>)"
    by (simp only: sq)
  from present have sub: "set (map m_id (map mk_msg [4, 5])) \<subseteq> set (stored_ids 1 (demo_db 5))" by auto
  from demo_two_passes a row b k ev sub p show ?thesis by blast
qed

section \<open>Failures\<close>

lemma failing_fetch:
  "getTopicMessages failing_messages w n = Some (Inl (ApiError 500), Suc n)"
  unfolding getTopicMessages_def
  by (subst getTopicMessages_loop.simps) (simp add: failing_messages_def request_def)

lemma stuck_pass:
  "syncSite stuck_env ''leanprover'' (empty_db, 0) = Some (Inl (ApiError 500), stuck_db, 2)"
  apply (simp add: demo_defs stuck_env_def stuck_remote_def stuck_register_def empty_db_def
      failing_fetch)
  apply (simp add: stuck_db_def)
  done

text \<open>
  C5, as the claim states it, fails: the pass plans general/stuck and general/welcome, the
  fetch of the first fails, and the pass ends with that error. Nothing is stored for
  general/welcome, not even its topic row, although its fetch would have succeeded.
\<close>

theorem C5_failed_conversation_ends_pass_counterexample:
  "syncSite stuck_env ''leanprover'' (empty_db, 0) = Some (Inl (ApiError 500), stuck_db, 2)
   \<and> messages stuck_db = [] \<and> map topic_name (topics stuck_db) = [''stuck'']
   \<and> getTopicMessages (r_messages stuck_remote ''general'' ''welcome'') None 2
        = Some (Inr demo_conversation, 3)"
  using stuck_pass demo_fetch_all[of 2]
  by (simp add: stuck_db_def stuck_remote_def)

lemma syncTopics_append:
  "syncTopics rem sid before k st = Some (Inr k1, st1) \<Longrightarrow>
   syncTopics rem sid (before @ rest) k st = syncTopics rem sid rest k1 st1"
proof (induction before arbitrary: k st)
  case Nil
  then show ?case by simp
next
  case (Cons t before)
  from Cons(2) obtain c st' where s: "syncTopic rem sid t st = Some (Inr c, st')"
    and r: "syncTopics rem sid before (k + c) st' = Some (Inr k1, st1)"
    by (auto split: option.splits sum.splits)
  from Cons(1)[OF r] s show ?case by simp
qed

text \<open>
  C5, amended: when fetching a planned conversation of a site pass fails, the loop over the
  planned conversations ends with that error. The conversations planned before it have
  been synced, the result and the store are those at the failure, and whatever
  conversations were planned after it play no part: they are not visited.
\<close>

theorem C5_failed_conversation_ends_loop:
  assumes "syncTopics rem sid before k st = Some (Inr k1, st1)"
    and "syncTopic rem sid t st1 = Some (Inl e, st2)"
  shows "syncTopics rem sid (before @ t # rest) k st = Some (Inl e, st2)"
  using syncTopics_append[OF assms(1), of "t # rest"] assms(2) by simp

lemma stuck_topic_run:
  "syncTopic stuck_remote 1 stuck_topic (site_db, 0) = Some (Inl (ApiError 500), stuck_topic_db, 1)"
  by (simp add: syncTopic_def stuck_topic_def stuck_remote_def failing_fetch getOrCreateStream_def
      getOrCreateTopic_def site_db_def empty_db_def Let_def stuck_topic_db_def)

theorem C5_failed_conversation_ends_loop_witness:
  "syncTopics stuck_remote 1 [] 0 (site_db, 0) = Some (Inr 0, site_db, 0)
   \<and> syncTopic stuck_remote 1 stuck_topic (site_db, 0) = Some (Inl (ApiError 500), stuck_topic_db, 1)
   \<and> syncTopics stuck_remote 1 ([] @ stuck_topic # [welcome_topic]) 0 (site_db, 0)
        = Some (Inl (ApiError 500), stuck_topic_db, 1)"
proof -
  have a: "syncTopics stuck_remote 1 [] 0 (site_db, 0) = Some (Inr 0, site_db, 0)" by simp
  from C5_failed_conversation_ends_loop[OF a stuck_topic_run, of "[welcome_topic]"] a stuck_topic_run
  show ?thesis by simp
qed

lemma auth_failing_pass:
  "syncSite two_site_env ''lean-fro'' (d, n) = Some (Inl (ApiError 401), d, Suc n)"
  by (simp add: syncSite_def two_site_env_def two_site_credentials_def getSiteCredentials_def
      str_or_def register_def request_def auth_failing_remote_def)

lemma second_site_pass:
  "syncSite two_site_env ''leanprover'' (empty_db, 1) = Some (Inr 5, demo_db 0, 3)"
  apply (simp add: demo_defs two_site_env_def two_site_credentials_def empty_db_def demo_fetch_all)
  apply (simp add: demo_defs demo_conversation_def demo_db_def demo_unread_def mk_msg_def)
  done

lemma two_site_list: "listSites (e_credentials two_site_env) = [''lean-fro'', ''leanprover'']"
  by (simp add: listSites_def two_site_env_def two_site_credentials_def)

text \<open>
  C6, as the claim states it, fails: with all sites requested, the pass for lean-fro fails
  on its credentials and the command ends there with exit status 1. The store is still
  empty and one request was made: the pass for leanprover, which would have stored five
  messages, was never started.
\<close>

theorem C6_failed_site_ends_command_counterexample:
  "sync_action two_site_env all_sites (empty_db, 0) = Some (1, empty_db, 1)
   \<and> syncSite two_site_env ''leanprover'' (empty_db, 1) = Some (Inr 5, demo_db 0, 3)"
  using second_site_pass
  by (simp add: sync_action_def syncCommand_def all_sites_def two_site_list auth_failing_pass)

lemma syncSites_append:
  "syncSites ev before st = Some (Inr u, st1) \<Longrightarrow>
   syncSites ev (before @ rest) st = syncSites ev rest st1"
proof (induction before arbitrary: st)
  case Nil
  then show ?case by simp
next
  case (Cons s before)
  from Cons(2) obtain c st' where s: "syncSite ev s st = Some (Inr c, st')"
    and r: "syncSites ev before st' = Some (Inr u, st1)"
    by (auto split: option.splits sum.splits)
  from Cons(1)[OF r] s show ?case by simp
qed

text \<open>
  C6, amended: the sites are attempted in order, and the first site whose pass fails ends
  the command: the passes of the sites before it have run, the error and the state are
  those of the failed pass, and no site after it is attempted. With all configured sites
  requested, the command then exits with status 1.
\<close>

theorem C6_first_failed_site_ends_command:
  assumes "syncSites ev before st = Some (Inr (), st1)"
    and "syncSite ev s st1 = Some (Inl e, st2)"
  shows "syncSites ev (before @ s # rest) st = Some (Inl e, st2)
         \<and> (listSites (e_credentials ev) = before @ s # rest \<longrightarrow>
              sync_action ev \<lparr> o_site = x, o_all = True \<rparr> st = Some (1, st2))"
proof -
  from syncSites_append[OF assms(1), of "s # rest"] assms(2)
  have "syncSites ev (before @ s # rest) st = Some (Inl e, st2)" by simp
  then show ?thesis by (simp add: sync_action_def syncCommand_def)
qed

theorem C6_first_failed_site_ends_command_witness:
  "syncSites two_site_env [] (empty_db, 0) = Some (Inr (), empty_db, 0)
   \<and> syncSite two_site_env ''lean-fro'' (empty_db, 0) = Some (Inl (ApiError 401), empty_db, 1)
   \<and> syncSites two_site_env ([] @ ''lean-fro'' # [''leanprover'']) (empty_db, 0)
        = Some (Inl (ApiError 401), empty_db, 1)
   \<and> listSites (e_credentials two_site_env) = [] @ ''lean-fro'' # [''leanprover'']
   \<and> sync_action two_site_env \<lparr> o_site = None, o_all = True \<rparr> (empty_db, 0) = Some (1, empty_db, 1)"
proof -
  have a: "syncSites two_site_env [] (empty_db, 0) = Some (Inr (), empty_db, 0)" by simp
  have b: "syncSite two_site_env ''lean-fro'' (empty_db, 0) = Some (Inl (ApiError 401), empty_db, 1)"
    by (simp add: auth_failing_pass)
  have c: "listSites (e_credentials two_site_env) = [] @ ''lean-fro'' # [''leanprover'']"
    by (simp add: two_site_list)
  from C6_first_failed_site_ends_command[OF a b, of "[''leanprover'']" None] a b c
  show ?thesis by simp
qed

section \<open>The merge of a batch\<close>

text \<open>The merge of \<open>syncSite\<close> is the run of both steps.\<close>

lemma syncTopic_merges:
  assumes "getOrCreateStream sid (ut_streamId t) (ut_streamName t) d = (sd, d1)"
    and "getOrCreateTopic sd (ut_topicName t) d1 = (tid, d2)"
    and "getTopicMessages (r_messages rem (ut_streamName t) (ut_topicName t))
           (or_undefined (getTopicLastMessageId tid d2)) n = Some (Inr ms, n')"
    and "ms \<noteq> []" and "length ms \<le> max_arguments"
  shows "syncTopic rem sid t (d, n) =
           Some (Inr (fst (insertMessages tid ms d2)), interrupted 2 (merge_steps tid ms) d2, n')"
  using assms
  by (simp add: syncTopic_def interrupted_def merge_steps_def split: prod.splits)

text \<open>When the maximum cannot be computed, it is the run of the first step.\<close>

lemma syncTopic_cut:
  assumes "getOrCreateStream sid (ut_streamId t) (ut_streamName t) d = (sd, d1)"
    and "getOrCreateTopic sd (ut_topicName t) d1 = (tid, d2)"
    and "getTopicMessages (r_messages rem (ut_streamName t) (ut_topicName t))
           (or_undefined (getTopicLastMessageId tid d2)) n = Some (Inr ms, n')"
    and "max_arguments < length ms"
  shows "syncTopic rem sid t (d, n) =
           Some (Inl RangeError, interrupted 1 (merge_steps tid ms) d2, n')"
  using assms
  by (auto simp: syncTopic_def interrupted_def merge_steps_def split: prod.splits)

lemma interrupted_0: "interrupted 0 steps d = d"
  by (simp add: interrupted_def)

lemma interrupted_1:
  "interrupted (Suc 0) (merge_steps t ms) d = snd (insertMessages t ms d)"
  by (simp add: interrupted_def merge_steps_def)

lemma interrupted_2:
  "2 \<le> k \<Longrightarrow> interrupted k (merge_steps t ms) d =
     updateTopicLastMessageId t (Max (set (map m_id ms))) (snd (insertMessages t ms d))"
  by (simp add: interrupted_def merge_steps_def)

lemma insertMessages_stored:
  "set (stored_ids t (snd (insertMessages t ms d))) = set (stored_ids t d) \<union> m_id ` set ms"
  using insertMany_set_stored[of t t ms 0 d] by (simp add: insertMessages_def)

lemma insertMessages_topics: "topics (snd (insertMessages t ms d)) = topics d"
  using insertMany_other_tables[of t ms 0 d] by (simp add: insertMessages_def)

text \<open>
  C2, as the claim states it, fails: stop the process after the first commit of the merge
  of the messages 1 to 5 into the fresh topic. All five messages are stored and the
  watermark of the topic is still none: the insert and the watermark advance are separated.
\<close>

theorem C2_insert_without_watermark_counterexample:
  "stored_ids 1 (interrupted 1 (merge_steps 1 demo_conversation) fresh_topic_db) = [1, 2, 3, 4, 5]
   \<and> getTopicLastMessageId 1 (interrupted 1 (merge_steps 1 demo_conversation) fresh_topic_db) = None"
  by (simp add: interrupted_1 insertMessages_def insert_message_stmt_def demo_conversation_def
      mk_msg_def fresh_topic_db_def site_db_def empty_db_def stored_ids_def getTopicLastMessageId_def)

text \<open>
  C2, amended: \<open>insertMessages\<close> commits the whole batch in one transaction, and the
  watermark advance is a separate statement that runs after it. So a stop before the first
  commit changes nothing; after the first commit the whole batch is stored and the topics
  table is as before; after both commits the store is the merged one; and at every stopping
  point a watermark that differs from the old one is backed by the whole batch being stored.
  A failure between the two calls leaves the batch stored and the watermark not advanced.
\<close>

theorem C2_insert_commits_before_watermark:
  "interrupted 0 (merge_steps t ms) d = d
   \<and> set (stored_ids t (interrupted 1 (merge_steps t ms) d)) = set (stored_ids t d) \<union> m_id ` set ms
   \<and> topics (interrupted 1 (merge_steps t ms) d) = topics d
   \<and> (2 \<le> k \<longrightarrow> interrupted k (merge_steps t ms) d =
         updateTopicLastMessageId t (Max (set (map m_id ms))) (snd (insertMessages t ms d)))
   \<and> (getTopicLastMessageId t (interrupted k (merge_steps t ms) d) \<noteq> getTopicLastMessageId t d
        \<longrightarrow> m_id ` set ms \<subseteq> set (stored_ids t (interrupted k (merge_steps t ms) d)))"
proof (intro conjI impI)
  show "interrupted 0 (merge_steps t ms) d = d" by (rule interrupted_0)
  show "set (stored_ids t (interrupted 1 (merge_steps t ms) d)) = set (stored_ids t d) \<union> m_id ` set ms"
    by (simp add: interrupted_1 insertMessages_stored)
  show "topics (interrupted 1 (merge_steps t ms) d) = topics d"
    by (simp add: interrupted_1 insertMessages_topics)
  show "interrupted k (merge_steps t ms) d =
         updateTopicLastMessageId t (Max (set (map m_id ms))) (snd (insertMessages t ms d))"
    if "2 \<le> k" using that by (rule interrupted_2)
  show "m_id ` set ms \<subseteq> set (stored_ids t (interrupted k (merge_steps t ms) d))"
    if ch: "getTopicLastMessageId t (interrupted k (merge_steps t ms) d) \<noteq> getTopicLastMessageId t d"
  proof -
    consider "k = 0" | "k = Suc 0" | "2 \<le> k" by arith
    then show ?thesis
    proof cases
      case 1
      with ch show ?thesis by (simp add: interrupted_0)
    next
      case 2
      with ch show ?thesis
        by (simp add: interrupted_1 getTopicLastMessageId_def insertMessages_topics)
    next
      case 3
      have "stored_ids t (updateTopicLastMessageId t (Max (set (map m_id ms)))
                (snd (insertMessages t ms d))) = stored_ids t (snd (insertMessages t ms d))"
        by (rule stored_ids_cong) (rule update_frame)
      with 3 show ?thesis
        by (simp add: interrupted_2 insertMessages_stored)
    qed
  qed
qed

theorem C2_insert_commits_before_watermark_witness:
  "interrupted 0 (merge_steps 1 demo_conversation) fresh_topic_db = fresh_topic_db
   \<and> set (stored_ids 1 (interrupted 1 (merge_steps 1 demo_conversation) fresh_topic_db)) = {1, 2, 3, 4, 5}
   \<and> getTopicLastMessageId 1 (interrupted 2 (merge_steps 1 demo_conversation) fresh_topic_db) = Some 5
   \<and> m_id ` set demo_conversation
        \<subseteq> set (stored_ids 1 (interrupted 2 (merge_steps 1 demo_conversation) fresh_topic_db))"
proof -
  note T = C2_insert_commits_before_watermark[of 1 demo_conversation fresh_topic_db 2]
  have e: "stored_ids 1 fresh_topic_db = []"
    by (simp add: stored_ids_def fresh_topic_db_def site_db_def empty_db_def)
  have w: "getTopicLastMessageId 1 fresh_topic_db = None"
    by (simp add: getTopicLastMessageId_def fresh_topic_db_def site_db_def empty_db_def)
  have m: "Max (m_id ` set demo_conversation) = 5"
    by (simp add: demo_conversation_def mk_msg_def)
  have i: "m_id ` set demo_conversation = {1, 2, 3, 4, 5}"
    by (auto simp: demo_conversation_def mk_msg_def)
  have x: "\<exists>r \<in> set (topics fresh_topic_db). topic_row_id r = 1"
    by (simp add: fresh_topic_db_def site_db_def empty_db_def)
  have g: "getTopicLastMessageId 1 (interrupted 2 (merge_steps 1 demo_conversation) fresh_topic_db) = Some 5"
    using x by (simp add: interrupted_2 getTopicLastMessageId_update insertMessages_topics m)
  from T have a: "interrupted 0 (merge_steps 1 demo_conversation) fresh_topic_db = fresh_topic_db"
    by blast
  from T have "set (stored_ids 1 (interrupted 1 (merge_steps 1 demo_conversation) fresh_topic_db))
      = set (stored_ids 1 fresh_topic_db) \<union> m_id ` set demo_conversation" by blast
  then have b: "set (stored_ids 1 (interrupted 1 (merge_steps 1 demo_conversation) fresh_topic_db))
      = {1, 2, 3, 4, 5}" by (simp only: e i) simp
  have "getTopicLastMessageId 1 (interrupted 2 (merge_steps 1 demo_conversation) fresh_topic_db)
      \<noteq> getTopicLastMessageId 1 fresh_topic_db" by (simp only: g w) simp
  with T have c: "m_id ` set demo_conversation
        \<subseteq> set (stored_ids 1 (interrupted 2 (merge_steps 1 demo_conversation) fresh_topic_db))"
    by blast
  from a b g c show ?thesis by blast
qed

section \<open>What the unread command changes\<close>









section \<open>A second pass\<close>

subsection \<open>Fetching from a steady server\<close>




subsection \<open>Looking rows up\<close>












lemma lookup_cong:
  "streams d' = streams d \<Longrightarrow> stream_lookup sid i d' = stream_lookup sid i d"
  "topics d' = topics d \<Longrightarrow> topic_lookup sd nm d' = topic_lookup sd nm d"
  by (simp_all add: stream_lookup_def topic_lookup_def)


subsection \<open>One conversation, in general\<close>









subsection \<open>The loop over the planned conversations\<close>






subsection \<open>The unread markers and the plan\<close>




subsection \<open>The site row\<close>

lemma getSiteId_cong: "sites d' = sites d \<Longrightarrow> getSiteId s d' = getSiteId s d"
  by (simp add: getSiteId_def)



subsection \<open>Two passes\<close>






subsection \<open>What the insert of the unread markers returns\<close>










subsection \<open>Conversations that were planned before\<close>





subsection \<open>The grown scenario, evaluated\<close>












end
